theory Spec2Isabelle
  imports Complex_Main
begin

section \<open>Macro engine: data model\<close>

text \<open>
  Action kinds are strings in the source (the table \<open>ActionType\<close>); the dispatch sites
  compare them with \<open>===\<close>, so they stay strings here. The two joystick kinds have
  the same strings in \<open>ActionType\<close> and in \<open>TriggerType\<close>.
\<close>

definition KEYBOARD_KEY :: string where "KEYBOARD_KEY = ''keyboard_key''"
definition KEYBOARD_HOLD :: string where "KEYBOARD_HOLD = ''keyboard_hold''"
definition KEYBOARD_RELEASE :: string where "KEYBOARD_RELEASE = ''keyboard_release''"
definition JOYSTICK_BUTTON :: string where "JOYSTICK_BUTTON = ''joystick_button''"
definition JOYSTICK_AXIS :: string where "JOYSTICK_AXIS = ''joystick_axis''"
definition MOUSE_MOVE :: string where "MOUSE_MOVE = ''mouse_move''"
definition MOUSE_CLICK :: string where "MOUSE_CLICK = ''mouse_click''"
definition TIMER_DELAY :: string where "TIMER_DELAY = ''timer_delay''"

text \<open>
  The field \<open>value\<close> of an action is dynamically typed: \<open>null\<close> by default, a button
  name for a mouse click, an object with optional \<open>x\<close> and \<open>y\<close> for a mouse move.
\<close>

datatype action_value =
    VNull
  | VStr string
  | VNum int
  | VObj "int option" "int option"

text \<open>JavaScript truthiness of such a value (what \<open>||\<close> and \<open>&&\<close> test).\<close>

fun truthy :: "action_value \<Rightarrow> bool" where
  "truthy VNull = False"
| "truthy (VStr s) = (s \<noteq> [])"
| "truthy (VNum n) = (n \<noteq> 0)"
| "truthy (VObj x y) = True"

text \<open>
  Class \<open>MacroAction\<close>. The field \<open>value\<close> is named \<open>val\<close>. Durations are
  milliseconds. Class \<open>Macro\<close>: the two dates are instants in milliseconds.
\<close>

record MacroAction =
  actionId :: string
  actionType :: string
  deviceId :: "string option"
  inputName :: string
  val :: action_value
  duration :: int

record Macro =
  macroId :: string
  name :: string
  actions :: "MacroAction list"
  repeatCount :: int
  enabled :: bool
  description :: string
  createdAt :: int
  modifiedAt :: int

section \<open>Macro: editing the action list\<close>

text \<open>\<open>Array.prototype.findIndex\<close>: the first index whose element passes, or \<open>-1\<close>.\<close>

fun findIndex :: "('a \<Rightarrow> bool) \<Rightarrow> 'a list \<Rightarrow> int" where
  "findIndex p [] = -1"
| "findIndex p (x # xs) =
     (if p x then 0 else (let i = findIndex p xs in if i = -1 then -1 else i + 1))"

text \<open>
  \<open>Array.prototype.splice\<close> as \<open>moveAction\<close> uses it. The start index is clamped as
  the language defines: a negative start counts from the end and stops at \<open>0\<close>, a start
  past the end becomes the length.
\<close>

definition splice_start :: "'a list \<Rightarrow> int \<Rightarrow> nat" where
  "splice_start xs i =
     (if i < 0 then nat (max (int (length xs) + i) 0) else nat (min i (int (length xs))))"

definition splice_remove1 :: "'a list \<Rightarrow> int \<Rightarrow> 'a list \<times> 'a list" where
  "splice_remove1 xs i =
     (let s = splice_start xs i in (take 1 (drop s xs), take s xs @ drop (Suc s) xs))"

definition splice_insert :: "'a list \<Rightarrow> int \<Rightarrow> 'a \<Rightarrow> 'a list" where
  "splice_insert xs i x = (let s = splice_start xs i in take s xs @ x # drop s xs)"

text \<open>
  \<open>Macro.addAction\<close>, \<open>Macro.removeAction\<close>, \<open>Macro.moveAction\<close>. The argument
  \<open>now\<close> is what \<open>new Date()\<close> returns at the call.
\<close>

definition addAction :: "int \<Rightarrow> Macro \<Rightarrow> MacroAction \<Rightarrow> Macro" where
  "addAction now m a = m\<lparr>actions := actions m @ [a], modifiedAt := now\<rparr>"

definition removeAction :: "int \<Rightarrow> Macro \<Rightarrow> string \<Rightarrow> Macro" where
  "removeAction now m aid =
     m\<lparr>actions := filter (\<lambda>a. actionId a \<noteq> aid) (actions m), modifiedAt := now\<rparr>"

definition moveAction :: "int \<Rightarrow> Macro \<Rightarrow> string \<Rightarrow> int \<Rightarrow> Macro" where
  "moveAction now m aid newIndex =
     (let actionIndex = findIndex (\<lambda>a. actionId a = aid) (actions m) in
      if actionIndex \<noteq> -1 then
        (case splice_remove1 (actions m) actionIndex of
           ([action], rest) \<Rightarrow>
             m\<lparr>actions := splice_insert rest newIndex action, modifiedAt := now\<rparr>
         | (_, rest) \<Rightarrow> m\<lparr>actions := rest, modifiedAt := now\<rparr>)
      else m)"

section \<open>Macro engine: executing one action\<close>

text \<open>
  The input injector is the optional module \<open>robotjs\<close>: the variable \<open>robot\<close> is
  \<open>null\<close> when it could not be loaded. Each of its functions may throw. An injector is
  modelled by the calls it accepts: given the number of actions the session has executed
  so far and the call, it says whether the call returns (\<open>True\<close>) or throws.
\<close>

datatype injector_call =
    KeyTap string
  | KeyToggle string string
  | MouseClick string
  | MoveMouse int int

type_synonym robot = "nat \<Rightarrow> injector_call \<Rightarrow> bool"

datatype error = InjectorFailure injector_call

datatype event =
    Injected injector_call
  | Sleep int
  | ConsoleWarn string
  | ConsoleError error

definition robot_call :: "robot \<Rightarrow> nat \<Rightarrow> injector_call \<Rightarrow> error + event list" where
  "robot_call r k c = (if r k c then Inr [Injected c] else Inl (InjectorFailure c))"

text \<open>\<open>_convertKeyName\<close>: the table of logical key names, else the name in lower case.\<close>

definition keyMap :: "(string \<times> string) list" where
  "keyMap =
     [(''Space'', ''space''), (''Enter'', ''enter''), (''Tab'', ''tab''),
      (''Shift'', ''shift''), (''Control'', ''control''), (''Alt'', ''alt''),
      (''Escape'', ''escape''), (''Backspace'', ''backspace''), (''Delete'', ''delete''),
      (''Home'', ''home''), (''End'', ''end''), (''PageUp'', ''pageup''),
      (''PageDown'', ''pagedown''), (''ArrowUp'', ''up''), (''ArrowDown'', ''down''),
      (''ArrowLeft'', ''left''), (''ArrowRight'', ''right''), (''CapsLock'', ''capslock''),
      (''Meta'', ''command'')]"

definition toLowerCase :: "string \<Rightarrow> string" where
  "toLowerCase s =
     map (\<lambda>c. let n = (of_char c :: nat) in
                if 65 \<le> n \<and> n \<le> 90 then char_of (n + 32) else c) s"

definition convertKeyName :: "string \<Rightarrow> string" where
  "convertKeyName keyName =
     (case map_of keyMap keyName of Some k \<Rightarrow> k | None \<Rightarrow> toLowerCase keyName)"

text \<open>
  The five \<open>_execute...\<close> methods. Each returns at once with a warning when \<open>robot\<close> is
  \<open>null\<close>; an exception of the injector leaves the method (\<open>Inl\<close>) before the pause
  that would follow the call.
\<close>

definition then_events :: "error + event list \<Rightarrow> event list \<Rightarrow> error + event list" where
  "then_events r es = (case r of Inl e \<Rightarrow> Inl e | Inr es0 \<Rightarrow> Inr (es0 @ es))"

definition executeKeyboardKey :: "robot option \<Rightarrow> nat \<Rightarrow> MacroAction \<Rightarrow> error + event list" where
  "executeKeyboardKey robot k action =
     (case robot of
        None \<Rightarrow> Inr [ConsoleWarn ''robotjs not available - cannot execute keyboard action'']
      | Some r \<Rightarrow>
          (let key = convertKeyName (inputName action) in
           then_events (robot_call r k (KeyTap key)) [Sleep 50]))"

definition executeKeyboardHold :: "robot option \<Rightarrow> nat \<Rightarrow> MacroAction \<Rightarrow> error + event list" where
  "executeKeyboardHold robot k action =
     (case robot of
        None \<Rightarrow> Inr [ConsoleWarn ''robotjs not available - cannot execute keyboard action'']
      | Some r \<Rightarrow>
          (let key = convertKeyName (inputName action) in
           then_events (robot_call r k (KeyToggle key ''down'')) [Sleep (duration action)]))"

definition executeKeyboardRelease :: "robot option \<Rightarrow> nat \<Rightarrow> MacroAction \<Rightarrow> error + event list" where
  "executeKeyboardRelease robot k action =
     (case robot of
        None \<Rightarrow> Inr [ConsoleWarn ''robotjs not available - cannot execute keyboard action'']
      | Some r \<Rightarrow>
          (let key = convertKeyName (inputName action) in
           robot_call r k (KeyToggle key ''up'')))"

text \<open>
  \<open>robot.mouseClick(action.value || 'left')\<close>: a falsy value gives \<open>'left'\<close>; a
  value that is not a button name is passed on as it is, here by its text.
\<close>

fun value_text :: "action_value \<Rightarrow> string" where
  "value_text (VStr s) = s"
| "value_text VNull = ''null''"
| "value_text (VNum n) = ''[number]''"
| "value_text (VObj x y) = ''[object Object]''"

definition button_of :: "action_value \<Rightarrow> string" where
  "button_of v = (if truthy v then value_text v else ''left'')"

definition executeMouseClick :: "robot option \<Rightarrow> nat \<Rightarrow> MacroAction \<Rightarrow> error + event list" where
  "executeMouseClick robot k action =
     (case robot of
        None \<Rightarrow> Inr [ConsoleWarn ''robotjs not available - cannot execute mouse action'']
      | Some r \<Rightarrow> then_events (robot_call r k (MouseClick (button_of (val action)))) [Sleep 50])"

definition executeMouseMove :: "robot option \<Rightarrow> nat \<Rightarrow> MacroAction \<Rightarrow> error + event list" where
  "executeMouseMove robot k action =
     (case robot of
        None \<Rightarrow> Inr [ConsoleWarn ''robotjs not available - cannot execute mouse action'']
      | Some r \<Rightarrow>
          (case val action of
             VObj (Some x) (Some y) \<Rightarrow> robot_call r k (MoveMouse x y)
           | _ \<Rightarrow> Inr []))"

text \<open>
  \<open>_executeAction\<close>: the chain of comparisons on the kind, inside \<open>try\<close>; the
  \<open>catch\<close> logs the exception and returns normally. Joystick kinds and unknown kinds
  match no branch.
\<close>

definition executeAction_body :: "robot option \<Rightarrow> nat \<Rightarrow> MacroAction \<Rightarrow> error + event list" where
  "executeAction_body robot k action =
     (if actionType action = TIMER_DELAY then Inr [Sleep (duration action)]
      else if actionType action = KEYBOARD_KEY then executeKeyboardKey robot k action
      else if actionType action = KEYBOARD_HOLD then executeKeyboardHold robot k action
      else if actionType action = KEYBOARD_RELEASE then executeKeyboardRelease robot k action
      else if actionType action = MOUSE_CLICK then executeMouseClick robot k action
      else if actionType action = MOUSE_MOVE then executeMouseMove robot k action
      else Inr [])"

definition executeAction :: "robot option \<Rightarrow> nat \<Rightarrow> MacroAction \<Rightarrow> error + event list" where
  "executeAction robot k action =
     (case executeAction_body robot k action of
        Inl e \<Rightarrow> Inr [ConsoleError e]
      | Inr es \<Rightarrow> Inr es)"

section \<open>Macro engine: the playback loop\<close>

text \<open>
  \<open>_playbackLoop(macro, stopFlag)\<close>. The stop flag is an object shared with
  \<open>stopMacro\<close>; the loop reads it at the head of \<open>while\<close> and before each action, and
  hands control to other code only inside \<open>await this._executeAction(action)\<close>. So the
  value it reads is a function of the number of actions the session has executed:
  \<open>stopped k\<close> is the flag once \<open>k\<close> actions have run. The trace lists the actions
  begun, each with the events of its execution. An exception leaving
  \<open>_executeAction\<close> would leave the loop (\<open>Inl\<close>).
\<close>

type_synonym trace = "(MacroAction \<times> event list) list"

fun run_pass ::
  "robot option \<Rightarrow> (nat \<Rightarrow> bool) \<Rightarrow> MacroAction list \<Rightarrow> trace \<Rightarrow> error + trace" where
  "run_pass robot stopped [] tr = Inr tr"
| "run_pass robot stopped (action # rest) tr =
     (if stopped (length tr) then Inr tr
      else (case executeAction robot (length tr) action of
              Inl e \<Rightarrow> Inl e
            | Inr es \<Rightarrow> run_pass robot stopped rest (tr @ [(action, es)])))"

text \<open>
  The \<open>while\<close> loop may run forever, so it takes fuel: one unit per evaluation of the
  loop head. \<open>None\<close> means the fuel ran out before the loop returned.
\<close>

fun playbackLoop_while ::
  "nat \<Rightarrow> robot option \<Rightarrow> Macro \<Rightarrow> (nat \<Rightarrow> bool) \<Rightarrow> int \<Rightarrow> trace \<Rightarrow> (error + trace) option" where
  "playbackLoop_while 0 robot macro stopped iteration tr = None"
| "playbackLoop_while (Suc fuel) robot macro stopped iteration tr =
     (if stopped (length tr) then Some (Inr tr)
      else
        (let iteration' = (if repeatCount macro > 0 then iteration + 1 else iteration) in
         if repeatCount macro > 0 \<and> iteration' > repeatCount macro then Some (Inr tr)
         else
           (case run_pass robot stopped (actions macro) tr of
              Inl e \<Rightarrow> Some (Inl e)
            | Inr tr' \<Rightarrow>
                if repeatCount macro = 1 then Some (Inr tr')
                else playbackLoop_while fuel robot macro stopped iteration' tr')))"

definition playbackLoop ::
  "nat \<Rightarrow> robot option \<Rightarrow> Macro \<Rightarrow> (nat \<Rightarrow> bool) \<Rightarrow> (error + trace) option" where
  "playbackLoop fuel robot macro stopped = playbackLoop_while fuel robot macro stopped 0 []"

text \<open>The actions a run began, in the order it began them.\<close>

definition begun :: "(error + trace) option \<Rightarrow> (error + MacroAction list) option" where
  "begun r = map_option (map_sum id (map fst)) r"

section \<open>Macro engine: sessions and their bookkeeping\<close>

text \<open>
  \<open>playMacro\<close> is an \<open>async\<close> method: a call runs until the first \<open>await\<close> that
  suspends it, other code runs meanwhile, and the call is resumed later. The engine state
  therefore holds, beside the three maps of the class, the stop flag objects (a store:
  \<open>stopFlags\<close> maps a macro id to the address of a flag, and a suspended call keeps the
  address of its own flag) and the suspended calls. A suspended call waits either inside
  \<open>await this._executeAction(action)\<close> or, once its loop has returned, at
  \<open>await this._playbackLoop(macro, stopFlag)\<close> with its cleanup still to run. The
  macro is taken not to be edited while it plays.
\<close>

datatype phase = AwaitAction | AwaitLoop

record Session =
  sMacroId :: string
  sMacro :: Macro
  sStopFlag :: nat
  sIteration :: int
  sRest :: "MacroAction list"
  sPhase :: phase
  sBegun :: "MacroAction list"

record MacroEngine =
  macros :: "(string \<times> Macro) list"
  activePlaybacks :: "string set"
  stopFlags :: "string \<rightharpoonup> nat"
  flags :: "bool list"
  sessions :: "Session list"

definition getMacro :: "MacroEngine \<Rightarrow> string \<Rightarrow> Macro option" where
  "getMacro e mid = map_of (macros e) mid"

definition stopMacro :: "string \<Rightarrow> MacroEngine \<Rightarrow> MacroEngine" where
  "stopMacro mid e =
     (case stopFlags e mid of
        None \<Rightarrow> e
      | Some f \<Rightarrow> e\<lparr>flags := (flags e)[f := True]\<rparr>)"

text \<open>
  The code of \<open>_playbackLoop\<close> between two suspensions. No other code runs in between,
  so the flag has one value \<open>stopped\<close> throughout. \<open>loop_head\<close> starts at the test of
  \<open>while\<close>; \<open>loop_resume\<close> starts where an awaited action has completed, with
  \<open>rest\<close> the actions of the pass still to come. The run ends by beginning an action
  (\<open>Suspended\<close>, with the pass counter, the action and the rest of the pass), by leaving
  the loop (\<open>Finished\<close>), or not at all (\<open>Spins\<close>): with no action and no repeat
  limit the \<open>while\<close> loop never yields.
\<close>

datatype outcome = Suspended int MacroAction "MacroAction list" | Finished | Spins

function loop_head :: "bool \<Rightarrow> Macro \<Rightarrow> int \<Rightarrow> outcome" where
  "loop_head stopped macro iteration =
     (if stopped then Finished
      else
        (let iteration' = (if repeatCount macro > 0 then iteration + 1 else iteration) in
         if repeatCount macro > 0 \<and> iteration' > repeatCount macro then Finished
         else
           (case actions macro of
              action # rest \<Rightarrow> Suspended iteration' action rest
            | [] \<Rightarrow>
                if repeatCount macro = 1 then Finished
                else if repeatCount macro > 0 then loop_head stopped macro iteration'
                else Spins)))"
  by pat_completeness auto
termination
  by (relation "measure (\<lambda>(stopped, macro, iteration). nat (repeatCount macro - iteration))")
    auto

definition loop_resume :: "bool \<Rightarrow> Macro \<Rightarrow> int \<Rightarrow> MacroAction list \<Rightarrow> outcome" where
  "loop_resume stopped macro iteration rest =
     (case rest of
        action # rest' \<Rightarrow>
          if stopped then
            (if repeatCount macro = 1 then Finished else loop_head stopped macro iteration)
          else Suspended iteration action rest'
      | [] \<Rightarrow>
          if repeatCount macro = 1 then Finished else loop_head stopped macro iteration)"

text \<open>
  \<open>playMacro(macroId)\<close> up to its first suspension. \<open>None\<close>: the call never returns.
\<close>

definition playMacro :: "string \<Rightarrow> MacroEngine \<Rightarrow> MacroEngine option" where
  "playMacro mid e =
     (case getMacro e mid of
        None \<Rightarrow> Some e
      | Some macro \<Rightarrow>
          if \<not> enabled macro then Some e
          else
            (let e1 = (if mid \<in> activePlaybacks e then stopMacro mid e else e);
                 f = length (flags e1);
                 e2 = e1\<lparr>flags := flags e1 @ [False],
                         stopFlags := (stopFlags e1)(mid \<mapsto> f),
                         activePlaybacks := insert mid (activePlaybacks e1)\<rparr>
             in
               (case loop_head False macro 0 of
                  Suspended it action rest \<Rightarrow>
                    Some (e2\<lparr>sessions := sessions e2 @
                      [\<lparr>sMacroId = mid, sMacro = macro, sStopFlag = f, sIteration = it,
                        sRest = rest, sPhase = AwaitAction, sBegun = [action]\<rparr>]\<rparr>)
                | Finished \<Rightarrow>
                    Some (e2\<lparr>sessions := sessions e2 @
                      [\<lparr>sMacroId = mid, sMacro = macro, sStopFlag = f, sIteration = 0,
                        sRest = [], sPhase = AwaitLoop, sBegun = []\<rparr>]\<rparr>)
                | Spins \<Rightarrow> None)))"

text \<open>
  The host resumes the suspended call number \<open>i\<close>. Waiting on its loop, the call runs its
  cleanup: \<open>activePlaybacks.delete(macroId)\<close>, \<open>stopFlags.delete(macroId)\<close>, and is
  over. Waiting on an action, it reads its own flag and goes on in the loop.
\<close>

definition resume :: "nat \<Rightarrow> MacroEngine \<Rightarrow> MacroEngine option" where
  "resume i e =
     (if length (sessions e) \<le> i then Some e
      else
        (let s = sessions e ! i in
         case sPhase s of
           AwaitLoop \<Rightarrow>
             Some (e\<lparr>activePlaybacks := activePlaybacks e - {sMacroId s},
                     stopFlags := (stopFlags e)(sMacroId s := None),
                     sessions := take i (sessions e) @ drop (Suc i) (sessions e)\<rparr>)
         | AwaitAction \<Rightarrow>
             (case loop_resume (flags e ! sStopFlag s) (sMacro s) (sIteration s) (sRest s) of
                Suspended it action rest \<Rightarrow>
                  Some (e\<lparr>sessions := (sessions e)
                    [i := s\<lparr>sIteration := it, sRest := rest, sBegun := sBegun s @ [action]\<rparr>]\<rparr>)
              | Finished \<Rightarrow> Some (e\<lparr>sessions := (sessions e)[i := s\<lparr>sPhase := AwaitLoop\<rparr>]\<rparr>)
              | Spins \<Rightarrow> None)))"

definition isMacroPlaying :: "MacroEngine \<Rightarrow> string \<Rightarrow> bool" where
  "isMacroPlaying e mid = (mid \<in> activePlaybacks e)"

text \<open>
  The sessions of a macro that will begin a further action when resumed: suspended in an
  action, with their own stop flag not set.
\<close>

definition running :: "MacroEngine \<Rightarrow> string \<Rightarrow> Session list" where
  "running e mid =
     filter (\<lambda>s. sMacroId s = mid \<and> sPhase s = AwaitAction \<and> \<not> flags e ! sStopFlag s)
       (sessions e)"

section \<open>Macro engine: persistence\<close>

text \<open>
  A persisted record may lack any field that \<open>fromJSON\<close> reads with a default: such a
  field is optional here, \<open>None\<close> when the record has no such key. The kind of an action
  has no default. The two dates are written as ISO strings, which denote the same instants
  when read back, so a record holds the instant.
\<close>

record MacroActionRecord =
  r_actionId :: "string option"
  r_actionType :: string
  r_deviceId :: "string option"
  r_inputName :: "string option"
  r_value :: "action_value option"
  r_duration :: "int option"

record MacroRecord =
  r_macroId :: "string option"
  r_name :: "string option"
  r_actions :: "MacroActionRecord list option"
  r_repeatCount :: "int option"
  r_enabled :: "bool option"
  r_description :: "string option"
  r_createdAt :: "int option"
  r_modifiedAt :: "int option"

text \<open>
  \<open>x || d\<close> on a field that may be absent: \<open>d\<close> when the field is absent or falsy. The
  empty string and the number zero are falsy; an array never is.
\<close>

definition or_string :: "string option \<Rightarrow> string \<Rightarrow> string" where
  "or_string x d = (case x of None \<Rightarrow> d | Some s \<Rightarrow> if s = [] then d else s)"

definition or_number :: "'a::zero option \<Rightarrow> 'a \<Rightarrow> 'a" where
  "or_number x d = (case x of None \<Rightarrow> d | Some n \<Rightarrow> if n = 0 then d else n)"

definition or_array :: "'a list option \<Rightarrow> 'a list \<Rightarrow> 'a list" where
  "or_array x d = (case x of None \<Rightarrow> d | Some xs \<Rightarrow> xs)"

text \<open>A default parameter of a constructor, and \<open>x !== undefined ? x : d\<close>.\<close>

definition or_default :: "'a option \<Rightarrow> 'a \<Rightarrow> 'a" where
  "or_default x d = (case x of None \<Rightarrow> d | Some v \<Rightarrow> v)"

definition MacroAction_toJSON :: "MacroAction \<Rightarrow> MacroActionRecord" where
  "MacroAction_toJSON a =
     \<lparr>r_actionId = Some (actionId a), r_actionType = actionType a, r_deviceId = deviceId a,
      r_inputName = Some (inputName a), r_value = Some (val a), r_duration = Some (duration a)\<rparr>"

text \<open>The argument \<open>uuid\<close> is the identifier that \<open>uuidv4()\<close> returns at this call.\<close>

definition MacroAction_fromJSON :: "string \<Rightarrow> MacroActionRecord \<Rightarrow> MacroAction" where
  "MacroAction_fromJSON uuid d =
     \<lparr>actionId = or_string (r_actionId d) uuid,
      actionType = r_actionType d,
      deviceId = r_deviceId d,
      inputName = or_default (r_inputName d) [],
      val = or_default (r_value d) VNull,
      duration = or_default (r_duration d) 0\<rparr>"

definition Macro_toJSON :: "Macro \<Rightarrow> MacroRecord" where
  "Macro_toJSON m =
     \<lparr>r_macroId = Some (macroId m), r_name = Some (name m),
      r_actions = Some (map MacroAction_toJSON (actions m)),
      r_repeatCount = Some (repeatCount m), r_enabled = Some (enabled m),
      r_description = Some (description m),
      r_createdAt = Some (createdAt m), r_modifiedAt = Some (modifiedAt m)\<rparr>"

text \<open>
  \<open>uuid 0\<close> is the fresh identifier for the macro and \<open>uuid (Suc i)\<close> the one for its
  action number \<open>i\<close>; \<open>now\<close> is \<open>new Date()\<close>.
\<close>

definition Macro_fromJSON :: "(nat \<Rightarrow> string) \<Rightarrow> int \<Rightarrow> MacroRecord \<Rightarrow> Macro" where
  "Macro_fromJSON uuid now d =
     \<lparr>macroId = or_string (r_macroId d) (uuid 0),
      name = or_default (r_name d) ''New Macro'',
      actions = map (\<lambda>(i, a). MacroAction_fromJSON (uuid (Suc i)) a)
                  (enumerate 0 (or_array (r_actions d) [])),
      repeatCount = or_number (r_repeatCount d) 1,
      enabled = or_default (r_enabled d) True,
      description = or_string (r_description d) [],
      createdAt = or_default (r_createdAt d) now,
      modifiedAt = or_default (r_modifiedAt d) now\<rparr>"

text \<open>
  A catalogue is a \<open>Map\<close>: keys in insertion order, \<open>set\<close> replacing the value of a key
  already there. The persisted catalogue is an object from id to record, read back in the
  order of its keys.
\<close>

fun map_set :: "('k \<times> 'v) list \<Rightarrow> 'k \<Rightarrow> 'v \<Rightarrow> ('k \<times> 'v) list" where
  "map_set [] k v = [(k, v)]"
| "map_set ((k', v') # kvs) k v =
     (if k' = k then (k, v) # kvs else (k', v') # map_set kvs k v)"

definition MacroEngine_toJSON :: "(string \<times> Macro) list \<Rightarrow> (string \<times> MacroRecord) list" where
  "MacroEngine_toJSON ms = fold (\<lambda>(mid, m) obj. map_set obj mid (Macro_toJSON m)) ms []"

definition MacroEngine_fromJSON ::
  "(nat \<Rightarrow> nat \<Rightarrow> string) \<Rightarrow> int \<Rightarrow> (string \<times> MacroRecord) list \<Rightarrow> (string \<times> Macro) list" where
  "MacroEngine_fromJSON uuid now data =
     fold (\<lambda>(j, (mid, d)) ms.
             (let macro = Macro_fromJSON (uuid j) now d in map_set ms (macroId macro) macro))
       (enumerate 0 data) []"

section \<open>Trigger engine: data model\<close>

definition KEY_PRESS :: string where "KEY_PRESS = ''key_press''"
definition KEY_HOLD :: string where "KEY_HOLD = ''key_hold''"
definition KEY_DOUBLE_TAP :: string where "KEY_DOUBLE_TAP = ''key_double_tap''"
definition KEY_COMBO :: string where "KEY_COMBO = ''key_combo''"

text \<open>
  Class \<open>Trigger\<close>. Its fields \<open>macroId\<close>, \<open>deviceId\<close>, \<open>inputName\<close> and
  \<open>enabled\<close> carry the suffix \<open>T\<close>, the plain names being fields of the macro classes.
  A \<open>deviceId\<close> of \<open>null\<close> is \<open>None\<close>.
\<close>

record Trigger =
  triggerId :: string
  triggerType :: string
  macroIdT :: string
  deviceIdT :: "string option"
  inputNameT :: string
  modifiers :: "string list"
  axisThreshold :: rat
  holdDuration :: int
  doubleTapWindow :: int
  enabledT :: bool

text \<open>The constructor, with the identifier that \<open>uuidv4()\<close> returns.\<close>

definition new_Trigger :: "string \<Rightarrow> string \<Rightarrow> string \<Rightarrow> string option \<Rightarrow> string \<Rightarrow> Trigger" where
  "new_Trigger uuid ttype mid dev inp =
     \<lparr>triggerId = uuid, triggerType = ttype, macroIdT = mid, deviceIdT = dev,
      inputNameT = inp, modifiers = [], axisThreshold = 1 / 2, holdDuration = 500,
      doubleTapWindow = 300, enabledT = True\<rparr>"

text \<open>
  A hold timer is a timeout of the host whose callback holds the trigger and the key it
  was armed for. The engine keeps the handle of one timeout per key in
  \<open>keyHoldTimers\<close>; \<open>timeouts\<close> is the host's table of the timeouts that are armed:
  neither fired nor cleared.

  The engine listens to the document. \<open>this._handleKeyDown.bind(this)\<close> makes a new
  function object each time it is evaluated; a bound handler is identified here by a
  number, \<open>nextBound\<close> being the next one. \<open>keydownListeners\<close> and
  \<open>keyupListeners\<close> are the handlers the document holds for the two events, in the
  order it calls them. \<open>gamepadInterval\<close> says whether the polling interval is
  installed; what the polling does is not part of this model.
\<close>

record HoldTimer =
  timerTrigger :: Trigger
  timerKey :: string
  timerDelay :: int

record TriggerEngine =
  triggers :: "(string \<times> Trigger) list"
  monitoring :: bool
  pressedKeys :: "string set"
  keyPressTimes :: "string \<rightharpoonup> int list"
  keyHoldTimers :: "string \<rightharpoonup> nat"
  timeouts :: "nat \<rightharpoonup> HoldTimer"
  nextHandle :: nat
  keydownListeners :: "nat list"
  keyupListeners :: "nat list"
  nextBound :: nat
  gamepadInterval :: bool

definition new_TriggerEngine :: TriggerEngine where
  "new_TriggerEngine =
     \<lparr>triggers = [], monitoring = False, pressedKeys = {}, keyPressTimes = Map.empty,
      keyHoldTimers = Map.empty, timeouts = Map.empty, nextHandle = 0,
      keydownListeners = [], keyupListeners = [], nextBound = 0, gamepadInterval = False\<rparr>"

definition setTimeout :: "HoldTimer \<Rightarrow> TriggerEngine \<Rightarrow> nat \<times> TriggerEngine" where
  "setTimeout cb e =
     (nextHandle e, e\<lparr>timeouts := (timeouts e)(nextHandle e \<mapsto> cb), nextHandle := Suc (nextHandle e)\<rparr>)"

definition clearTimeout :: "nat \<Rightarrow> TriggerEngine \<Rightarrow> TriggerEngine" where
  "clearTimeout h e = e\<lparr>timeouts := (timeouts e)(h := None)\<rparr>"

section \<open>Trigger engine: operations\<close>

definition createTrigger ::
  "string \<Rightarrow> string \<Rightarrow> string \<Rightarrow> string option \<Rightarrow> string \<Rightarrow> TriggerEngine \<Rightarrow> Trigger \<times> TriggerEngine" where
  "createTrigger uuid ttype mid dev inp e =
     (let trigger = new_Trigger uuid ttype mid dev inp in
      (trigger, e\<lparr>triggers := map_set (triggers e) (triggerId trigger) trigger\<rparr>))"

definition deleteTrigger :: "string \<Rightarrow> TriggerEngine \<Rightarrow> TriggerEngine" where
  "deleteTrigger tid e =
     (if tid \<in> fst ` set (triggers e)
      then e\<lparr>triggers := filter (\<lambda>(k, t). k \<noteq> tid) (triggers e)\<rparr>
      else e)"

definition getTrigger :: "TriggerEngine \<Rightarrow> string \<Rightarrow> Trigger option" where
  "getTrigger e tid = map_of (triggers e) tid"

text \<open>
  The document's two operations on a list of listeners: adding a function object it
  already holds changes nothing, and removing one takes out that very object.
\<close>

definition addEventListener :: "nat \<Rightarrow> nat list \<Rightarrow> nat list" where
  "addEventListener f ls = (if f \<in> set ls then ls else ls @ [f])"

definition removeEventListener :: "nat \<Rightarrow> nat list \<Rightarrow> nat list" where
  "removeEventListener f ls = filter (\<lambda>g. g \<noteq> f) ls"

definition bind_this :: "TriggerEngine \<Rightarrow> nat \<times> TriggerEngine" where
  "bind_this e = (nextBound e, e\<lparr>nextBound := Suc (nextBound e)\<rparr>)"

text \<open>
  \<open>_startKeyboardMonitoring\<close> and \<open>_stopKeyboardMonitoring\<close>: each of their four
  lines evaluates \<open>bind\<close> anew, so what the second passes to
  \<open>removeEventListener\<close> is never an object that was added.
\<close>

definition startKeyboardMonitoring :: "TriggerEngine \<Rightarrow> TriggerEngine" where
  "startKeyboardMonitoring e =
     (let (f, e1) = bind_this e;
          e2 = e1\<lparr>keydownListeners := addEventListener f (keydownListeners e1)\<rparr>;
          (g, e3) = bind_this e2
      in e3\<lparr>keyupListeners := addEventListener g (keyupListeners e3)\<rparr>)"

definition stopKeyboardMonitoring :: "TriggerEngine \<Rightarrow> TriggerEngine" where
  "stopKeyboardMonitoring e =
     (let (f, e1) = bind_this e;
          e2 = e1\<lparr>keydownListeners := removeEventListener f (keydownListeners e1)\<rparr>;
          (g, e3) = bind_this e2
      in e3\<lparr>keyupListeners := removeEventListener g (keyupListeners e3)\<rparr>)"

definition startGamepadMonitoring :: "TriggerEngine \<Rightarrow> TriggerEngine" where
  "startGamepadMonitoring e = (if \<not> gamepadInterval e then e\<lparr>gamepadInterval := True\<rparr> else e)"

definition stopGamepadMonitoring :: "TriggerEngine \<Rightarrow> TriggerEngine" where
  "stopGamepadMonitoring e = (if gamepadInterval e then e\<lparr>gamepadInterval := False\<rparr> else e)"

text \<open>
  \<open>startMonitoring\<close> and \<open>stopMonitoring\<close>. Stopping clears the pressed keys, the
  press times and every hold timer the engine holds.
\<close>

definition startMonitoring :: "TriggerEngine \<Rightarrow> TriggerEngine" where
  "startMonitoring e =
     (if monitoring e then e
      else startGamepadMonitoring (startKeyboardMonitoring (e\<lparr>monitoring := True\<rparr>)))"

definition stopMonitoring :: "TriggerEngine \<Rightarrow> TriggerEngine" where
  "stopMonitoring e =
     (if \<not> monitoring e then e
      else
        (let e1 = stopGamepadMonitoring (stopKeyboardMonitoring (e\<lparr>monitoring := False\<rparr>))
         in e1\<lparr>pressedKeys := {}, keyPressTimes := Map.empty,
                timeouts := (\<lambda>h. if h \<in> ran (keyHoldTimers e1) then None else timeouts e1 h),
                keyHoldTimers := Map.empty\<rparr>))"

text \<open>
  \<open>_activateTrigger\<close> asks the macro engine to play the trigger's macro and does not
  wait. The operations below return the triggers they activated, in order.
\<close>

definition checkModifiers :: "TriggerEngine \<Rightarrow> string list \<Rightarrow> bool" where
  "checkModifiers e mods = list_all (\<lambda>m. m \<in> pressedKeys e) mods"

definition setupHoldTimer :: "Trigger \<Rightarrow> string \<Rightarrow> TriggerEngine \<Rightarrow> TriggerEngine" where
  "setupHoldTimer trigger key e =
     (let e1 = (case keyHoldTimers e key of Some h \<Rightarrow> clearTimeout h e | None \<Rightarrow> e);
          (timer, e2) =
            setTimeout \<lparr>timerTrigger = trigger, timerKey = key,
                        timerDelay = holdDuration trigger\<rparr> e1
      in e2\<lparr>keyHoldTimers := (keyHoldTimers e2)(key \<mapsto> timer)\<rparr>)"

text \<open>The host runs the callback of the timeout \<open>h\<close>, if it is still armed.\<close>

definition timeout_fires :: "nat \<Rightarrow> TriggerEngine \<Rightarrow> TriggerEngine \<times> Trigger list" where
  "timeout_fires h e =
     (case timeouts e h of
        None \<Rightarrow> (e, [])
      | Some cb \<Rightarrow>
          (let e1 = e\<lparr>timeouts := (timeouts e)(h := None)\<rparr>;
               activated = (if timerKey cb \<in> pressedKeys e1 then [timerTrigger cb] else [])
           in (e1\<lparr>keyHoldTimers := (keyHoldTimers e1)(timerKey cb := None)\<rparr>, activated)))"

text \<open>
  \<open>_checkDoubleTap\<close>: \<open>times.slice(-2)\<close> is the last two entries, read only when there
  are at least two.
\<close>

definition checkDoubleTap :: "TriggerEngine \<Rightarrow> string \<Rightarrow> int \<Rightarrow> bool" where
  "checkDoubleTap e key window =
     (case keyPressTimes e key of
        None \<Rightarrow> False
      | Some stamps \<Rightarrow>
          if length stamps < 2 then False
          else
            (let lastTwo = drop (length stamps - 2) stamps;
                 timeDiff = lastTwo ! 1 - lastTwo ! 0
             in timeDiff \<le> window))"

definition cleanupPressTimes :: "string \<Rightarrow> int \<Rightarrow> TriggerEngine \<Rightarrow> TriggerEngine" where
  "cleanupPressTimes key now e =
     (case keyPressTimes e key of
        None \<Rightarrow> e
      | Some stamps \<Rightarrow>
          e\<lparr>keyPressTimes := (keyPressTimes e)(key \<mapsto> filter (\<lambda>t. now - t < 1000) stamps)\<rparr>)"

text \<open>
  The body of the loop of \<open>_checkKeyTriggers\<close> for one trigger: the two \<open>continue\<close>
  guards, then the four tests in their order. \<open>process\<close> is the device manager's
  \<open>shouldProcessDeviceInput\<close>; a device id that is \<open>null\<close> or empty is not checked.
\<close>

definition device_blocked :: "(string \<Rightarrow> bool) \<Rightarrow> Trigger \<Rightarrow> bool" where
  "device_blocked process trigger =
     (case deviceIdT trigger of
        None \<Rightarrow> False
      | Some d \<Rightarrow> d \<noteq> [] \<and> \<not> process d)"

definition checkKeyTrigger ::
  "(string \<Rightarrow> bool) \<Rightarrow> string \<Rightarrow> Trigger \<Rightarrow> TriggerEngine \<times> Trigger list \<Rightarrow>
   TriggerEngine \<times> Trigger list" where
  "checkKeyTrigger process key trigger st =
     (if \<not> enabledT trigger then st
      else if device_blocked process trigger then st
      else
        (let (e, acts) = st;
             acts1 = (if triggerType trigger = KEY_PRESS \<and> inputNameT trigger = key
                      then acts @ [trigger] else acts);
             acts2 = (if triggerType trigger = KEY_COMBO \<and> inputNameT trigger = key
                      then (if checkModifiers e (modifiers trigger) then acts1 @ [trigger]
                            else acts1)
                      else acts1);
             e3 = (if triggerType trigger = KEY_HOLD \<and> inputNameT trigger = key
                   then setupHoldTimer trigger key e else e);
             acts4 = (if triggerType trigger = KEY_DOUBLE_TAP \<and> inputNameT trigger = key
                      then (if checkDoubleTap e3 key (doubleTapWindow trigger)
                            then acts2 @ [trigger] else acts2)
                      else acts2)
         in (e3, acts4)))"

definition checkKeyTriggers ::
  "(string \<Rightarrow> bool) \<Rightarrow> string \<Rightarrow> TriggerEngine \<Rightarrow> TriggerEngine \<times> Trigger list" where
  "checkKeyTriggers process key e =
     fold (checkKeyTrigger process key) (map snd (triggers e)) (e, [])"

text \<open>\<open>_handleKeyDown\<close> and \<open>_handleKeyUp\<close>; \<open>now\<close> is \<open>Date.now()\<close>.\<close>

definition handleKeyDown ::
  "(string \<Rightarrow> bool) \<Rightarrow> int \<Rightarrow> string \<Rightarrow> TriggerEngine \<Rightarrow> TriggerEngine \<times> Trigger list" where
  "handleKeyDown process now key e =
     (if \<not> monitoring e then (e, [])
      else
        (let e1 = e\<lparr>pressedKeys := insert key (pressedKeys e)\<rparr>;
             stamps = (case keyPressTimes e1 key of None \<Rightarrow> [] | Some ts \<Rightarrow> ts);
             e2 = e1\<lparr>keyPressTimes := (keyPressTimes e1)(key \<mapsto> stamps @ [now])\<rparr>;
             e3 = cleanupPressTimes key now e2
         in checkKeyTriggers process key e3))"

definition handleKeyUp :: "string \<Rightarrow> TriggerEngine \<Rightarrow> TriggerEngine" where
  "handleKeyUp key e =
     (if \<not> monitoring e then e
      else
        (let e1 = e\<lparr>pressedKeys := pressedKeys e - {key}\<rparr> in
         case keyHoldTimers e1 key of
           None \<Rightarrow> e1
         | Some h \<Rightarrow> (clearTimeout h e1)\<lparr>keyHoldTimers := (keyHoldTimers e1)(key := None)\<rparr>))"

text \<open>
  A key event of the document: it calls the listeners it holds for the event, one after
  the other. Each is the engine's handler bound to the engine, so each call runs
  \<open>_handleKeyDown\<close> (or \<open>_handleKeyUp\<close>) on the state the call before left;
  \<open>clock i\<close> is what \<open>Date.now()\<close> returns in call number \<open>i\<close>.
\<close>

definition keydown_event ::
  "(string \<Rightarrow> bool) \<Rightarrow> (nat \<Rightarrow> int) \<Rightarrow> string \<Rightarrow> TriggerEngine \<Rightarrow>
   TriggerEngine \<times> Trigger list" where
  "keydown_event process clock key e =
     fold (\<lambda>(i, f) (e1, acts).
             (let (e2, acts2) = handleKeyDown process (clock i) key e1 in (e2, acts @ acts2)))
       (enumerate 0 (keydownListeners e)) (e, [])"

definition keyup_event :: "string \<Rightarrow> TriggerEngine \<Rightarrow> TriggerEngine" where
  "keyup_event key e = fold (\<lambda>f e1. handleKeyUp key e1) (keyupListeners e) e"

section \<open>Trigger engine: persistence\<close>

record TriggerRecord =
  r_triggerId :: "string option"
  r_triggerType :: string
  r_macroIdT :: string
  r_deviceIdT :: "string option"
  r_inputNameT :: "string option"
  r_modifiers :: "string list option"
  r_axisThreshold :: "rat option"
  r_holdDuration :: "int option"
  r_doubleTapWindow :: "int option"
  r_enabledT :: "bool option"

definition Trigger_toJSON :: "Trigger \<Rightarrow> TriggerRecord" where
  "Trigger_toJSON t =
     \<lparr>r_triggerId = Some (triggerId t), r_triggerType = triggerType t,
      r_macroIdT = macroIdT t, r_deviceIdT = deviceIdT t,
      r_inputNameT = Some (inputNameT t), r_modifiers = Some (modifiers t),
      r_axisThreshold = Some (axisThreshold t), r_holdDuration = Some (holdDuration t),
      r_doubleTapWindow = Some (doubleTapWindow t), r_enabledT = Some (enabledT t)\<rparr>"

definition Trigger_fromJSON :: "string \<Rightarrow> TriggerRecord \<Rightarrow> Trigger" where
  "Trigger_fromJSON uuid d =
     (let trigger = new_Trigger uuid (r_triggerType d) (r_macroIdT d) (r_deviceIdT d)
                      (or_default (r_inputNameT d) [])
      in trigger\<lparr>triggerId := or_string (r_triggerId d) uuid,
                 modifiers := or_array (r_modifiers d) [],
                 axisThreshold := or_number (r_axisThreshold d) (1 / 2),
                 holdDuration := or_number (r_holdDuration d) 500,
                 doubleTapWindow := or_number (r_doubleTapWindow d) 300,
                 enabledT := or_default (r_enabledT d) True\<rparr>)"

definition TriggerEngine_toJSON :: "(string \<times> Trigger) list \<Rightarrow> (string \<times> TriggerRecord) list" where
  "TriggerEngine_toJSON ts = fold (\<lambda>(tid, t) obj. map_set obj tid (Trigger_toJSON t)) ts []"

definition TriggerEngine_fromJSON ::
  "(nat \<Rightarrow> string) \<Rightarrow> (string \<times> TriggerRecord) list \<Rightarrow> (string \<times> Trigger) list" where
  "TriggerEngine_fromJSON uuid data =
     fold (\<lambda>(j, (tid, d)) ts.
             (let trigger = Trigger_fromJSON (uuid j) d in map_set ts (triggerId trigger) trigger))
       (enumerate 0 data) []"

section \<open>Scenarios\<close>

text \<open>
  The macro \<open>Combo\<close> of the specification: tap A, wait 100 ms, tap B, played twice; the
  same actions with no repeat limit; and a hold trigger and a double-tap trigger on one
  key.
\<close>

definition tapA :: MacroAction where
  "tapA = \<lparr>actionId = ''a1'', actionType = KEYBOARD_KEY, deviceId = None,
           inputName = ''A'', val = VNull, duration = 0\<rparr>"

definition wait100 :: MacroAction where
  "wait100 = \<lparr>actionId = ''a2'', actionType = TIMER_DELAY, deviceId = None,
              inputName = [], val = VNull, duration = 100\<rparr>"

definition tapB :: MacroAction where
  "tapB = \<lparr>actionId = ''a3'', actionType = KEYBOARD_KEY, deviceId = None,
           inputName = ''B'', val = VNull, duration = 0\<rparr>"

definition combo :: Macro where
  "combo = \<lparr>macroId = ''m1'', name = ''Combo'', actions = [tapA, wait100, tapB],
            repeatCount = 2, enabled = True, description = [], createdAt = 0,
            modifiedAt = 0\<rparr>"

definition endless :: Macro where
  "endless = combo\<lparr>repeatCount := 0\<rparr>"

definition engine0 :: MacroEngine where
  "engine0 = \<lparr>macros = [(''m1'', endless)], activePlaybacks = {}, stopFlags = Map.empty,
              flags = [], sessions = []\<rparr>"

definition holdF :: Trigger where
  "holdF = (new_Trigger ''t1'' KEY_HOLD ''m1'' None ''F'')"

definition doubleF :: Trigger where
  "doubleF = (new_Trigger ''t2'' KEY_DOUBLE_TAP ''m1'' None ''F'')"

definition triggers0 :: TriggerEngine where
  "triggers0 = new_TriggerEngine\<lparr>triggers := [(''t1'', holdF), (''t2'', doubleF)],
                                  monitoring := True\<rparr>"


text \<open>
  An engine with the double-tap trigger, before it is started; the same engine started
  once; and started, stopped and started again.
\<close>

definition idle :: TriggerEngine where
  "idle = new_TriggerEngine\<lparr>triggers := [(''t2'', doubleF)]\<rparr>"

definition started :: TriggerEngine where
  "started = startMonitoring idle"

definition restarted :: TriggerEngine where
  "restarted = startMonitoring (stopMonitoring (startMonitoring idle))"

text \<open>A run of the engine: each step applied to the state the one before returned.\<close>

definition steps :: "('s \<Rightarrow> 's option) list \<Rightarrow> 's \<Rightarrow> 's option" where
  "steps fs s = fold (\<lambda>f r. Option.bind r f) fs (Some s)"

text \<open>
  The macro is played; its first action completes and the wait begins; the macro is
  played again during the wait; the wait of the first call ends and that call leaves its
  loop; the first call runs its cleanup.
\<close>

definition restart_run :: "MacroEngine option" where
  "restart_run =
     steps [playMacro ''m1'', resume 0, playMacro ''m1'', resume 0, resume 0] engine0"

section \<open>Properties of the playback loop\<close>

text \<open>Neither one action nor one pass ever ends in an exception.\<close>

lemma executeAction_Inr: "\<exists>es. executeAction robot k a = Inr es"
  by (simp add: executeAction_def split: sum.splits)

lemma run_pass_Inr: "\<exists>tr'. run_pass robot stopped as tr = Inr tr'"
proof (induction as arbitrary: tr)
  case Nil
  show ?case by simp
next
  case (Cons a as)
  obtain es where es: "executeAction robot (length tr) a = Inr es"
    using executeAction_Inr by blast
  show ?case using Cons.IH [of "tr @ [(a, es)]"] by (simp add: es)
qed

lemma run_pass_never_stopped:
  assumes "\<forall>k. \<not> stopped k"
  shows "\<exists>tr'. run_pass robot stopped as tr = Inr tr' \<and> map fst tr' = map fst tr @ as"
proof (induction as arbitrary: tr)
  case Nil
  show ?case by simp
next
  case (Cons a as)
  obtain es where es: "executeAction robot (length tr) a = Inr es"
    using executeAction_Inr by blast
  show ?case using Cons.IH [of "tr @ [(a, es)]"] assms by (simp add: es)
qed

lemma while_bounded:
  assumes ns: "\<forall>k. \<not> stopped k" and rc: "repeatCount m = N" and N: "1 \<le> N"
  shows "0 \<le> i \<Longrightarrow> i \<le> N \<Longrightarrow> nat (N - i) < fuel \<Longrightarrow>
         \<exists>tr'. playbackLoop_while fuel robot m stopped i tr = Some (Inr tr') \<and>
               map fst tr' = map fst tr @ concat (replicate (nat (N - i)) (actions m))"
proof (induction fuel arbitrary: i tr)
  case 0
  then show ?case by simp
next
  case (Suc fuel)
  show ?case
  proof (cases "i = N")
    case True
    have ns0: "\<not> stopped (length tr)" using ns by blast
    show ?thesis using True ns0 rc N by simp
  next
    case False
    have ns0: "\<not> stopped (length tr)" using ns by blast
    from False Suc.prems have lt: "i < N" by simp
    obtain tr1 where p: "run_pass robot stopped (actions m) tr = Inr tr1"
      and m1: "map fst tr1 = map fst tr @ actions m"
      using run_pass_never_stopped [OF ns] by blast
    have rep: "nat (N - i) = Suc (nat (N - (i + 1)))" using lt by simp
    show ?thesis
    proof (cases "N = 1")
      case True
      then have "i = 0" using lt Suc.prems by simp
      then show ?thesis using ns0 rc True p m1 by simp
    next
      case False
      have "\<exists>tr'. playbackLoop_while fuel robot m stopped (i + 1) tr1 = Some (Inr tr') \<and>
               map fst tr' = map fst tr1 @ concat (replicate (nat (N - (i + 1))) (actions m))"
        using Suc.IH [of "i + 1" tr1] Suc.prems lt by simp
      then show ?thesis using ns0 rc N lt False p m1 rep by (simp add: Let_def)
    qed
  qed
qed



lemma run_pass_unstopped_prefix:
  "run_pass robot stopped as tr = Inr tr' \<Longrightarrow> \<forall>k<length tr. \<not> stopped k \<Longrightarrow>
   (\<forall>k<length tr'. \<not> stopped k) \<and> length tr \<le> length tr' \<and>
   (length tr' < length tr + length as \<longrightarrow> stopped (length tr'))"
proof (induction as arbitrary: tr)
  case Nil
  then show ?case by simp
next
  case (Cons a as)
  show ?case
  proof (cases "stopped (length tr)")
    case True
    then show ?thesis using Cons.prems by simp
  next
    case False
    obtain es where es: "executeAction robot (length tr) a = Inr es"
      using executeAction_Inr by blast
    have r: "run_pass robot stopped as (tr @ [(a, es)]) = Inr tr'"
      using Cons.prems(1) False es by simp
    have u: "\<forall>k<length (tr @ [(a, es)]). \<not> stopped k"
      using Cons.prems(2) False by (auto simp: less_Suc_eq)
    show ?thesis using Cons.IH [OF r u] by simp
  qed
qed

lemma while_unbounded_diverges:
  assumes ns: "\<forall>k. \<not> stopped k" and rc: "repeatCount m \<le> 0"
  shows "playbackLoop_while fuel robot m stopped i tr = None"
proof (induction fuel arbitrary: i tr)
  case 0
  show ?case by simp
next
  case (Suc fuel)
  have ns0: "\<not> stopped (length tr)" using ns by blast
  obtain tr1 where p: "run_pass robot stopped (actions m) tr = Inr tr1"
    using run_pass_Inr by blast
  show ?case using ns0 rc p Suc.IH [of i tr1] by simp
qed

lemma while_unbounded_returns:
  assumes rc: "repeatCount m \<le> 0"
  shows "playbackLoop_while fuel robot m stopped i tr = Some res \<Longrightarrow>
         \<forall>k<length tr. \<not> stopped k \<Longrightarrow>
         \<exists>tr'. res = Inr tr' \<and> stopped (length tr') \<and> (\<forall>k<length tr'. \<not> stopped k)"
proof (induction fuel arbitrary: i tr)
  case 0
  then show ?case by simp
next
  case (Suc fuel)
  show ?case
  proof (cases "stopped (length tr)")
    case True
    then show ?thesis using Suc.prems by auto
  next
    case False
    obtain tr1 where p: "run_pass robot stopped (actions m) tr = Inr tr1"
      using run_pass_Inr by blast
    have u: "\<forall>k<length tr1. \<not> stopped k"
      using run_pass_unstopped_prefix [OF p Suc.prems(2)] by simp
    have w: "playbackLoop_while fuel robot m stopped i tr1 = Some res"
      using Suc.prems(1) False rc p by simp
    show ?thesis by (rule Suc.IH [OF w u])
  qed
qed

lemma while_unbounded_terminates:
  assumes rc: "repeatCount m \<le> 0" and ne: "actions m \<noteq> []" and st: "stopped n"
  shows "\<forall>k<length tr. \<not> stopped k \<Longrightarrow> n - length tr < fuel \<Longrightarrow>
         playbackLoop_while fuel robot m stopped i tr \<noteq> None"
proof (induction fuel arbitrary: tr)
  case 0
  then show ?case by simp
next
  case (Suc fuel)
  show ?case
  proof (cases "stopped (length tr)")
    case True
    then show ?thesis by simp
  next
    case False
    obtain tr1 where p: "run_pass robot stopped (actions m) tr = Inr tr1"
      using run_pass_Inr by blast
    note q = run_pass_unstopped_prefix [OF p Suc.prems(1)]
    have u: "\<forall>k<length tr1. \<not> stopped k" using q by simp
    have le: "length tr1 \<le> n" using u st by (meson not_le_imp_less)
    have lt: "length tr < n" using Suc.prems(1) False st
      by (metis le le_neq_implies_less order_trans q)
    have "length tr < length tr1 \<or> stopped (length tr1)"
      using q ne by (cases "actions m") auto
    then show ?thesis
    proof
      assume g: "length tr < length tr1"
      have "n - length tr1 < fuel" using g le lt Suc.prems(2) by linarith
      from Suc.IH [OF u this] show ?thesis using False rc p by simp
    next
      assume s1: "stopped (length tr1)"
      have "0 < fuel" using lt Suc.prems(2) by linarith
      then obtain f where f: "fuel = Suc f" by (cases fuel) auto
      show ?thesis using False rc p s1 f by simp
    qed
  qed
qed

lemma run_pass_prefix:
  "run_pass robot stopped as tr = Inr tr' \<Longrightarrow>
   \<exists>p\<le>length as. map fst tr' = map fst tr @ take p as \<and>
                   (p < length as \<longrightarrow> stopped (length tr'))"
proof (induction as arbitrary: tr)
  case Nil
  then show ?case by simp
next
  case (Cons a as)
  show ?case
  proof (cases "stopped (length tr)")
    case True
    then have "tr' = tr" using Cons.prems by simp
    then show ?thesis using True by (intro exI [of _ 0]) simp
  next
    case False
    obtain es where es: "executeAction robot (length tr) a = Inr es"
      using executeAction_Inr by blast
    have r: "run_pass robot stopped as (tr @ [(a, es)]) = Inr tr'"
      using Cons.prems False es by simp
    from Cons.IH [OF r] obtain p where p: "p \<le> length as"
      "map fst tr' = map fst (tr @ [(a, es)]) @ take p as"
      "p < length as \<longrightarrow> stopped (length tr')"
      by blast
    show ?thesis using p by (intro exI [of _ "Suc p"]) simp
  qed
qed

lemma concat_replicate_snoc:
  "concat (replicate j xs) @ xs = concat (replicate (Suc j) xs)"
proof -
  have "replicate (Suc j) xs = replicate j xs @ [xs]"
    by (simp add: replicate_append_same)
  then show ?thesis by (simp del: replicate_Suc)
qed

lemma while_unbounded_shape:
  assumes rc: "repeatCount m \<le> 0"
  shows "playbackLoop_while fuel robot m stopped i tr = Some res \<Longrightarrow>
         map fst tr = concat (replicate j (actions m)) \<Longrightarrow>
         \<exists>tr' j' p. res = Inr tr' \<and>
           map fst tr' = concat (replicate j' (actions m)) @ take p (actions m)"
proof (induction fuel arbitrary: tr j)
  case 0
  then show ?case by simp
next
  case (Suc fuel)
  show ?case
  proof (cases "stopped (length tr)")
    case True
    then have "res = Inr tr" using Suc.prems(1) by simp
    then show ?thesis using Suc.prems(2) by (intro exI [of _ tr] exI [of _ j] exI [of _ 0]) simp
  next
    case False
    obtain tr1 where p1: "run_pass robot stopped (actions m) tr = Inr tr1"
      using run_pass_Inr by blast
    have w: "playbackLoop_while fuel robot m stopped i tr1 = Some res"
      using Suc.prems(1) False rc p1 by simp
    from run_pass_prefix [OF p1] obtain p where p: "p \<le> length (actions m)"
      "map fst tr1 = map fst tr @ take p (actions m)"
      "p < length (actions m) \<longrightarrow> stopped (length tr1)"
      by blast
    show ?thesis
    proof (cases "p = length (actions m)")
      case True
      then have "map fst tr1 = concat (replicate (Suc j) (actions m))"
        using p(2) Suc.prems(2) concat_replicate_snoc [of j "actions m"]
        by (simp del: replicate_Suc)
      from Suc.IH [OF w this] show ?thesis .
    next
      case False
      then have s: "stopped (length tr1)" using p by simp
      obtain f where f: "fuel = Suc f" using w by (cases fuel) auto
      have "res = Inr tr1" using w s f by simp
      then show ?thesis using p(2) Suc.prems(2)
        by (intro exI [of _ tr1] exI [of _ j] exI [of _ p]) simp
    qed
  qed
qed

text \<open>
  Claim C3. With repeat count \<open>0\<close> the loop never returns while the stop flag stays
  unset, whatever the fuel. When it does return, the flag is set at that moment, every
  action it began was begun while the flag was still unset, and what it began is a number
  of complete passes followed by the first actions of one more. When the flag is set after
  \<open>n\<close> actions and the macro has an action, the loop does return.
\<close>

theorem playbackLoop_unbounded:
  assumes "repeatCount m = 0"
  shows "((\<forall>k. \<not> stopped k) \<longrightarrow> (\<forall>fuel. playbackLoop fuel robot m stopped = None)) \<and>
         (\<forall>fuel res. playbackLoop fuel robot m stopped = Some res \<longrightarrow>
            (\<exists>tr j p. res = Inr tr \<and> stopped (length tr) \<and> (\<forall>k<length tr. \<not> stopped k) \<and>
               map fst tr = concat (replicate j (actions m)) @ take p (actions m))) \<and>
         (\<forall>n. stopped n \<and> actions m \<noteq> [] \<longrightarrow>
            (\<forall>fuel>n. playbackLoop fuel robot m stopped \<noteq> None))"
proof -
  have rc: "repeatCount m \<le> 0" using assms by simp
  have a: "(\<forall>k. \<not> stopped k) \<longrightarrow> (\<forall>fuel. playbackLoop fuel robot m stopped = None)"
    using while_unbounded_diverges [OF _ rc] by (simp add: playbackLoop_def)
  have b: "\<forall>fuel res. playbackLoop fuel robot m stopped = Some res \<longrightarrow>
            (\<exists>tr j p. res = Inr tr \<and> stopped (length tr) \<and> (\<forall>k<length tr. \<not> stopped k) \<and>
               map fst tr = concat (replicate j (actions m)) @ take p (actions m))"
  proof (intro allI impI)
    fix fuel res
    assume "playbackLoop fuel robot m stopped = Some res"
    then have w: "playbackLoop_while fuel robot m stopped 0 [] = Some res"
      by (simp add: playbackLoop_def)
    from while_unbounded_returns [OF rc w]
    obtain tr where 1: "res = Inr tr" "stopped (length tr)" "\<forall>k<length tr. \<not> stopped k"
      by auto
    from while_unbounded_shape [OF rc w, of 0]
    obtain j p where 2: "map fst tr = concat (replicate j (actions m)) @ take p (actions m)"
      using 1(1) by auto
    show "\<exists>tr j p. res = Inr tr \<and> stopped (length tr) \<and> (\<forall>k<length tr. \<not> stopped k) \<and>
               map fst tr = concat (replicate j (actions m)) @ take p (actions m)"
      using 1 2 by blast
  qed
  have c: "\<forall>n. stopped n \<and> actions m \<noteq> [] \<longrightarrow>
            (\<forall>fuel>n. playbackLoop fuel robot m stopped \<noteq> None)"
  proof (intro allI impI)
    fix n fuel
    assume h: "stopped n \<and> actions m \<noteq> []" and f: "n < fuel"
    have "playbackLoop_while fuel robot m stopped 0 [] \<noteq> None"
      by (rule while_unbounded_terminates [OF rc]) (use h f in simp_all)
    then show "playbackLoop fuel robot m stopped \<noteq> None"
      by (simp add: playbackLoop_def)
  qed
  show ?thesis using a b c by blast
qed

theorem playbackLoop_unbounded_witness:
  "repeatCount endless = 0 \<and>
   (\<forall>k. \<not> (\<lambda>k. False) k) \<and> playbackLoop 9 None endless (\<lambda>k. False) = None \<and>
   (\<lambda>k. 4 \<le> k) (4::nat) \<and> actions endless \<noteq> [] \<and> (4::nat) < 9 \<and>
   (\<exists>tr. playbackLoop 9 None endless (\<lambda>k. 4 \<le> k) = Some (Inr tr) \<and> length tr = 4)"
proof -
  have rc: "repeatCount endless = 0" by (simp add: endless_def)
  have ne: "actions endless \<noteq> []" by (simp add: endless_def combo_def)
  note never = playbackLoop_unbounded [OF rc, of "\<lambda>k. False" None]
  note at4 = playbackLoop_unbounded [OF rc, of "\<lambda>k. 4 \<le> k" None]
  have n: "playbackLoop 9 None endless (\<lambda>k. False) = None" using never by simp
  have "playbackLoop 9 None endless (\<lambda>k. 4 \<le> k) \<noteq> None"
    using at4 [THEN conjunct2, THEN conjunct2, rule_format, of 4 9] ne by simp
  then obtain res where r: "playbackLoop 9 None endless (\<lambda>k. 4 \<le> k) = Some res" by blast
  then obtain tr where "res = Inr tr" and "4 \<le> length tr" and "\<forall>k<length tr. \<not> 4 \<le> k"
    using at4 [THEN conjunct2, THEN conjunct1, rule_format, of 9 res] by blast
  then have "res = Inr tr \<and> length tr = 4" by (metis le_neq_implies_less order_refl)
  then show ?thesis using rc ne n r by simp
qed





lemma run_pass_begun:
  "length tr = length tr' \<Longrightarrow> map fst tr = map fst tr' \<Longrightarrow>
   run_pass r stopped as tr = Inr tr1 \<Longrightarrow> run_pass r' stopped as tr' = Inr tr1' \<Longrightarrow>
   map fst tr1 = map fst tr1'"
proof (induction as arbitrary: tr tr')
  case Nil
  then show ?case by simp
next
  case (Cons a as)
  show ?case
  proof (cases "stopped (length tr)")
    case True
    then show ?thesis using Cons.prems by simp
  next
    case False
    obtain es where es: "executeAction r (length tr) a = Inr es"
      using executeAction_Inr by blast
    obtain es' where es': "executeAction r' (length tr') a = Inr es'"
      using executeAction_Inr by blast
    have 1: "run_pass r stopped as (tr @ [(a, es)]) = Inr tr1"
      using Cons.prems False es by simp
    have 2: "run_pass r' stopped as (tr' @ [(a, es')]) = Inr tr1'"
      using Cons.prems False es' by simp
    show ?thesis
      by (rule Cons.IH [OF _ _ 1 2]) (use Cons.prems in simp_all)
  qed
qed

lemma while_begun:
  "map fst tr = map fst tr' \<Longrightarrow>
   begun (playbackLoop_while fuel r m stopped i tr) =
   begun (playbackLoop_while fuel r' m stopped i tr')"
proof (induction fuel arbitrary: i tr tr')
  case 0
  show ?case by simp
next
  case (Suc fuel)
  have len: "length tr = length tr'" using Suc.prems by (rule map_eq_imp_length_eq)
  obtain tr1 where p: "run_pass r stopped (actions m) tr = Inr tr1"
    using run_pass_Inr by blast
  obtain tr1' where p': "run_pass r' stopped (actions m) tr' = Inr tr1'"
    using run_pass_Inr by blast
  have e: "map fst tr1 = map fst tr1'"
    by (rule run_pass_begun [OF len Suc.prems p p'])
  show ?case using Suc.IH [OF e] Suc.prems len p p' e
    by (simp add: begun_def Let_def)
qed

lemma while_no_error: "playbackLoop_while fuel r m stopped i tr \<noteq> Some (Inl e)"
proof (induction fuel arbitrary: i tr)
  case 0
  show ?case by simp
next
  case (Suc fuel)
  obtain tr1 where p: "run_pass r stopped (actions m) tr = Inr tr1"
    using run_pass_Inr by blast
  show ?case using Suc.IH p by (simp add: Let_def)
qed

lemma executeAction_None_injects_nothing:
  "executeAction None k action = Inr es \<Longrightarrow> Injected c \<notin> set es"
  by (auto simp: executeAction_def executeAction_body_def executeKeyboardKey_def
      executeKeyboardHold_def executeKeyboardRelease_def executeMouseClick_def
      executeMouseMove_def split: if_splits sum.splits)

lemma executeAction_refused_injects_nothing:
  assumes "\<forall>c. \<not> r k c" and "executeAction (Some r) k action = Inr es"
  shows "Injected c \<notin> set es"
  using assms(2)
  by (auto simp: executeAction_def executeAction_body_def executeKeyboardKey_def
      executeKeyboardHold_def executeKeyboardRelease_def executeMouseClick_def
      executeMouseMove_def then_events_def robot_call_def assms(1) Let_def
      split: if_splits sum.splits action_value.splits option.splits)

lemma executeAction_local:
  assumes "r k = r' k"
  shows "executeAction (Some r) k action = executeAction (Some r') k action"
proof -
  have c: "\<And>c. robot_call r k c = robot_call r' k c"
    using assms by (simp add: robot_call_def)
  show ?thesis
    by (simp add: executeAction_def executeAction_body_def executeKeyboardKey_def
        executeKeyboardHold_def executeKeyboardRelease_def executeMouseClick_def
        executeMouseMove_def c split: action_value.splits option.splits)
qed

lemma run_pass_steps:
  "\<exists>tr' p. run_pass robot stopped as tr = Inr tr' \<and> p \<le> length as \<and>
     length tr' = length tr + p \<and> take (length tr) tr' = tr \<and>
     (\<forall>i<p. \<not> stopped (length tr + i)) \<and>
     (p < length as \<longrightarrow> stopped (length tr + p)) \<and>
     (\<forall>i<p. fst (tr' ! (length tr + i)) = as ! i \<and>
        executeAction robot (length tr + i) (as ! i) = Inr (snd (tr' ! (length tr + i))))"
proof (induction as arbitrary: tr)
  case Nil
  show ?case by simp
next
  case (Cons a as)
  show ?case
  proof (cases "stopped (length tr)")
    case True
    then show ?thesis by (intro exI [of _ tr] exI [of _ 0]) simp
  next
    case False
    obtain es where es: "executeAction robot (length tr) a = Inr es"
      using executeAction_Inr by blast
    let ?tr1 = "tr @ [(a, es)]"
    from Cons.IH [of ?tr1] obtain tr' p where
      r: "run_pass robot stopped as ?tr1 = Inr tr'" and p: "p \<le> length as"
      and len: "length tr' = length ?tr1 + p" and tk: "take (length ?tr1) tr' = ?tr1"
      and ns: "\<forall>i<p. \<not> stopped (length ?tr1 + i)"
      and st: "p < length as \<longrightarrow> stopped (length ?tr1 + p)"
      and ev: "\<forall>i<p. fst (tr' ! (length ?tr1 + i)) = as ! i \<and>
        executeAction robot (length ?tr1 + i) (as ! i) = Inr (snd (tr' ! (length ?tr1 + i)))"
      by blast
    have tk0: "take (length tr) tr' = tr"
      using arg_cong [OF tk, of "take (length tr)"] by (simp add: min_def)
    have at0: "tr' ! length tr = (a, es)"
      using arg_cong [OF tk, of "\<lambda>xs. xs ! length tr"] len by (simp add: nth_append)
    have ns': "\<forall>i<Suc p. \<not> stopped (length tr + i)"
    proof (intro allI impI)
      fix i assume "i < Suc p"
      then show "\<not> stopped (length tr + i)"
        using False ns by (cases i) auto
    qed
    have ev': "\<forall>i<Suc p. fst (tr' ! (length tr + i)) = (a # as) ! i \<and>
        executeAction robot (length tr + i) ((a # as) ! i) = Inr (snd (tr' ! (length tr + i)))"
    proof (intro allI impI)
      fix i assume i: "i < Suc p"
      show "fst (tr' ! (length tr + i)) = (a # as) ! i \<and>
        executeAction robot (length tr + i) ((a # as) ! i) = Inr (snd (tr' ! (length tr + i)))"
      proof (cases i)
        case 0
        then show ?thesis using at0 es by simp
      next
        case (Suc j)
        then have "j < p" using i by simp
        then show ?thesis using ev Suc by simp
      qed
    qed
    have "run_pass robot stopped (a # as) tr = Inr tr'" using False es r by simp
    moreover have "Suc p \<le> length (a # as)" using p by simp
    moreover have "length tr' = length tr + Suc p" using len by simp
    moreover have "Suc p < length (a # as) \<longrightarrow> stopped (length tr + Suc p)" using st by simp
    ultimately show ?thesis using tk0 ns' ev' by blast
  qed
qed

lemma run_pass_executed:
  assumes "run_pass robot stopped as tr = Inr tr'"
    and "\<forall>k<length tr. executeAction robot k (fst (tr ! k)) = Inr (snd (tr ! k))"
  shows "\<forall>k<length tr'. executeAction robot k (fst (tr' ! k)) = Inr (snd (tr' ! k))"
proof (intro allI impI)
  fix k assume k: "k < length tr'"
  from run_pass_steps [of robot stopped as tr] assms(1) obtain p where
    len: "length tr' = length tr + p" and tk: "take (length tr) tr' = tr"
    and ev: "\<forall>i<p. fst (tr' ! (length tr + i)) = as ! i \<and>
        executeAction robot (length tr + i) (as ! i) = Inr (snd (tr' ! (length tr + i)))"
    by auto
  show "executeAction robot k (fst (tr' ! k)) = Inr (snd (tr' ! k))"
  proof (cases "k < length tr")
    case True
    have "tr' ! k = tr ! k" using True tk by (metis nth_take)
    then show ?thesis using assms(2) True by simp
  next
    case False
    then obtain i where i: "k = length tr + i" "i < p" using k len
      by (metis add_diff_inverse_nat nat_add_left_cancel_less)
    show ?thesis using ev i by auto
  qed
qed

lemma while_executed:
  "playbackLoop_while fuel robot m stopped i tr = Some (Inr tr') \<Longrightarrow>
   \<forall>k<length tr. executeAction robot k (fst (tr ! k)) = Inr (snd (tr ! k)) \<Longrightarrow>
   \<forall>k<length tr'. executeAction robot k (fst (tr' ! k)) = Inr (snd (tr' ! k))"
proof (induction fuel arbitrary: i tr)
  case 0
  then show ?case by simp
next
  case (Suc fuel)
  obtain tr1 where p: "run_pass robot stopped (actions m) tr = Inr tr1"
    using run_pass_Inr by blast
  note e1 = run_pass_executed [OF p Suc.prems(2)]
  show ?case
  proof (cases "stopped (length tr)")
    case True
    then show ?thesis using Suc.prems by simp
  next
    case False
    show ?thesis
    proof (cases "repeatCount m > 0 \<and> (if repeatCount m > 0 then i + 1 else i) > repeatCount m")
      case True
      then have "tr' = tr" using Suc.prems(1) False by (auto simp: Let_def split: if_splits)
      then show ?thesis using Suc.prems(2) by simp
    next
      case lim: False
      show ?thesis
      proof (cases "repeatCount m = 1")
        case True
        then have "tr' = tr1" using Suc.prems(1) False lim p by (simp add: Let_def)
        then show ?thesis using e1 by simp
      next
        case one: False
        have "playbackLoop_while fuel robot m stopped
                (if repeatCount m > 0 then i + 1 else i) tr1 = Some (Inr tr')"
          using Suc.prems(1) False lim one p by (simp add: Let_def)
        from Suc.IH [OF this e1] show ?thesis .
      qed
    qed
  qed
qed

lemma while_locality:
  assumes 1: "playbackLoop fuel (Some r) m stopped = Some (Inr tr1)"
    and 2: "playbackLoop fuel (Some r') m stopped = Some (Inr tr2)"
  shows "length tr1 = length tr2 \<and> (\<forall>k<length tr1. r k = r' k \<longrightarrow> tr1 ! k = tr2 ! k)"
proof -
  have "begun (playbackLoop fuel (Some r) m stopped) = begun (playbackLoop fuel (Some r') m stopped)"
    unfolding playbackLoop_def by (rule while_begun) simp
  then have f: "map fst tr1 = map fst tr2" using 1 2 by (simp add: begun_def)
  then have len: "length tr1 = length tr2" by (rule map_eq_imp_length_eq)
  have e1: "\<forall>k<length tr1. executeAction (Some r) k (fst (tr1 ! k)) = Inr (snd (tr1 ! k))"
    using while_executed [of fuel "Some r" m stopped 0 "[]" tr1] 1 by (simp add: playbackLoop_def)
  have e2: "\<forall>k<length tr2. executeAction (Some r') k (fst (tr2 ! k)) = Inr (snd (tr2 ! k))"
    using while_executed [of fuel "Some r'" m stopped 0 "[]" tr2] 2 by (simp add: playbackLoop_def)
  have "\<forall>k<length tr1. r k = r' k \<longrightarrow> tr1 ! k = tr2 ! k"
  proof (intro allI impI)
    fix k assume k: "k < length tr1" and a: "r k = r' k"
    have ff: "fst (tr1 ! k) = fst (tr2 ! k)"
      using arg_cong [OF f, of "\<lambda>xs. xs ! k"] k len by simp
    have "Inr (snd (tr1 ! k)) = executeAction (Some r) k (fst (tr1 ! k))" using e1 k by simp
    also have "\<dots> = executeAction (Some r') k (fst (tr2 ! k))"
      using executeAction_local [of r k r', OF a] ff by simp
    also have "\<dots> = Inr (snd (tr2 ! k))" using e2 k len by simp
    finally have "snd (tr1 ! k) = snd (tr2 ! k)" by simp
    then show "tr1 ! k = tr2 ! k" using ff by (simp add: prod_eq_iff)
  qed
  then show ?thesis using len by blast
qed

lemma executeKeyboardKey_refused:
  assumes "actionType action = KEYBOARD_KEY"
    and "\<not> r k (KeyTap (convertKeyName (inputName action)))"
  shows "executeAction (Some r) k action =
         Inr [ConsoleError (InjectorFailure (KeyTap (convertKeyName (inputName action))))]"
  using assms
  by (simp add: executeAction_def executeAction_body_def executeKeyboardKey_def
      then_events_def robot_call_def KEYBOARD_KEY_def TIMER_DELAY_def)

lemma executeKeyboardKey_absent:
  assumes "actionType action = KEYBOARD_KEY"
  shows "executeAction None k action =
         Inr [ConsoleWarn ''robotjs not available - cannot execute keyboard action'']"
  using assms
  by (simp add: executeAction_def executeAction_body_def executeKeyboardKey_def
      KEYBOARD_KEY_def TIMER_DELAY_def)

text \<open>
  Claim C7. A failure of the injector stays inside the action that met it.
  \<^item> Executing an action never ends in an exception: an exception of the injector is
    logged and the action returns; a key tap that the injector refuses leaves only the
    logged error, and with no injector only the warning. A refused or absent injector
    injects nothing.
  \<^item> What an action does depends on the injector at that action's own step only.
  \<^item> A pass goes on to the next action whatever the injector did: it ends at the first
    action before which the stop flag is set, or at the end of the list, and every
    action before that point is executed with the injector it was given.
  \<^item> The loop never ends in an exception; two sessions that differ in their injectors
    begin the same actions, and their traces agree at every step where the injectors
    agree; with a repeat count \<open>N \<ge> 1\<close> and the stop flag unset, every one of the
    \<open>N\<close> passes is completed, whatever fails.
\<close>

theorem injector_failure_never_aborts:
  "executeAction robot k action \<noteq> Inl e \<and>
   (executeAction_body robot k action = Inl e \<longrightarrow>
      executeAction robot k action = Inr [ConsoleError e]) \<and>
   (\<forall>es. executeAction_body robot k action = Inr es \<longrightarrow> executeAction robot k action = Inr es) \<and>
   (actionType action = KEYBOARD_KEY \<and> \<not> r k (KeyTap (convertKeyName (inputName action))) \<longrightarrow>
      executeAction (Some r) k action =
        Inr [ConsoleError (InjectorFailure (KeyTap (convertKeyName (inputName action))))]) \<and>
   (actionType action = KEYBOARD_KEY \<longrightarrow>
      executeAction None k action =
        Inr [ConsoleWarn ''robotjs not available - cannot execute keyboard action'']) \<and>
   (\<forall>es c. executeAction None k action = Inr es \<longrightarrow> Injected c \<notin> set es) \<and>
   ((\<forall>c. \<not> r k c) \<longrightarrow>
      (\<forall>es c. executeAction (Some r) k action = Inr es \<longrightarrow> Injected c \<notin> set es)) \<and>
   (r k = r' k \<longrightarrow> executeAction (Some r) k action = executeAction (Some r') k action) \<and>
   (\<exists>tr' p. run_pass robot stopped as tr = Inr tr' \<and> p \<le> length as \<and>
      length tr' = length tr + p \<and> take (length tr) tr' = tr \<and>
      (\<forall>i<p. \<not> stopped (length tr + i)) \<and>
      (p < length as \<longrightarrow> stopped (length tr + p)) \<and>
      (\<forall>i<p. fst (tr' ! (length tr + i)) = as ! i \<and>
         executeAction robot (length tr + i) (as ! i) = Inr (snd (tr' ! (length tr + i))))) \<and>
   playbackLoop fuel robot m stopped \<noteq> Some (Inl e) \<and>
   begun (playbackLoop fuel robot m stopped) = begun (playbackLoop fuel robot' m stopped) \<and>
   (\<forall>tr1. playbackLoop fuel robot m stopped = Some (Inr tr1) \<longrightarrow>
      (\<forall>j<length tr1. executeAction robot j (fst (tr1 ! j)) = Inr (snd (tr1 ! j)))) \<and>
   (\<forall>tr1 tr2. playbackLoop fuel (Some r) m stopped = Some (Inr tr1) \<and>
        playbackLoop fuel (Some r') m stopped = Some (Inr tr2) \<longrightarrow>
      length tr1 = length tr2 \<and> (\<forall>j<length tr1. r j = r' j \<longrightarrow> tr1 ! j = tr2 ! j)) \<and>
   (1 \<le> repeatCount m \<and> (\<forall>j. \<not> stopped j) \<and> nat (repeatCount m) < fuel \<longrightarrow>
      (\<exists>tr1. playbackLoop fuel robot m stopped = Some (Inr tr1) \<and>
         map fst tr1 = concat (replicate (nat (repeatCount m)) (actions m))))"
proof -
  have c1: "executeAction robot k action \<noteq> Inl e"
    using executeAction_Inr [of robot k action] by auto
  have c2: "executeAction_body robot k action = Inl e \<longrightarrow>
      executeAction robot k action = Inr [ConsoleError e]"
    by (simp add: executeAction_def)
  have c3: "\<forall>es. executeAction_body robot k action = Inr es \<longrightarrow>
      executeAction robot k action = Inr es"
    by (simp add: executeAction_def)
  have c4: "actionType action = KEYBOARD_KEY \<and>
      \<not> r k (KeyTap (convertKeyName (inputName action))) \<longrightarrow>
      executeAction (Some r) k action =
        Inr [ConsoleError (InjectorFailure (KeyTap (convertKeyName (inputName action))))]"
    using executeKeyboardKey_refused by blast
  have c5: "actionType action = KEYBOARD_KEY \<longrightarrow>
      executeAction None k action =
        Inr [ConsoleWarn ''robotjs not available - cannot execute keyboard action'']"
    using executeKeyboardKey_absent by blast
  have c6: "\<forall>es c. executeAction None k action = Inr es \<longrightarrow> Injected c \<notin> set es"
    using executeAction_None_injects_nothing by blast
  have c7: "(\<forall>c. \<not> r k c) \<longrightarrow>
      (\<forall>es c. executeAction (Some r) k action = Inr es \<longrightarrow> Injected c \<notin> set es)"
    using executeAction_refused_injects_nothing by blast
  have c8: "r k = r' k \<longrightarrow> executeAction (Some r) k action = executeAction (Some r') k action"
    using executeAction_local by blast
  note c9 = run_pass_steps [of robot stopped as tr]
  have c10: "playbackLoop fuel robot m stopped \<noteq> Some (Inl e)"
    using while_no_error [of fuel robot m stopped 0 "[]" e] by (simp add: playbackLoop_def)
  have c11: "begun (playbackLoop fuel robot m stopped) = begun (playbackLoop fuel robot' m stopped)"
    unfolding playbackLoop_def by (rule while_begun) simp
  have c12: "\<forall>tr1. playbackLoop fuel robot m stopped = Some (Inr tr1) \<longrightarrow>
      (\<forall>j<length tr1. executeAction robot j (fst (tr1 ! j)) = Inr (snd (tr1 ! j)))"
  proof (intro allI impI)
    fix tr1 j
    assume "playbackLoop fuel robot m stopped = Some (Inr tr1)" and j: "j < length tr1"
    then have "playbackLoop_while fuel robot m stopped 0 [] = Some (Inr tr1)"
      by (simp add: playbackLoop_def)
    from while_executed [OF this] j
    show "executeAction robot j (fst (tr1 ! j)) = Inr (snd (tr1 ! j))" by simp
  qed
  have c13: "\<forall>tr1 tr2. playbackLoop fuel (Some r) m stopped = Some (Inr tr1) \<and>
        playbackLoop fuel (Some r') m stopped = Some (Inr tr2) \<longrightarrow>
      length tr1 = length tr2 \<and> (\<forall>j<length tr1. r j = r' j \<longrightarrow> tr1 ! j = tr2 ! j)"
    using while_locality by blast
  have c14: "1 \<le> repeatCount m \<and> (\<forall>j. \<not> stopped j) \<and> nat (repeatCount m) < fuel \<longrightarrow>
      (\<exists>tr1. playbackLoop fuel robot m stopped = Some (Inr tr1) \<and>
         map fst tr1 = concat (replicate (nat (repeatCount m)) (actions m)))"
  proof
    assume h: "1 \<le> repeatCount m \<and> (\<forall>j. \<not> stopped j) \<and> nat (repeatCount m) < fuel"
    then have ns: "\<forall>j. \<not> stopped j" and n1: "1 \<le> repeatCount m"
      and b: "nat (repeatCount m - 0) < fuel" by simp_all
    have "\<exists>tr1. playbackLoop_while fuel robot m stopped 0 [] = Some (Inr tr1) \<and>
          map fst tr1 = map fst [] @ concat (replicate (nat (repeatCount m - 0)) (actions m))"
      using while_bounded [OF ns refl n1 order_refl _ b, of robot "[]"] n1 by simp
    then show "\<exists>tr1. playbackLoop fuel robot m stopped = Some (Inr tr1) \<and>
         map fst tr1 = concat (replicate (nat (repeatCount m)) (actions m))"
      by (simp add: playbackLoop_def)
  qed
  show ?thesis
    using c1 c2 c3 c4 c5 c6 c7 c8 c9 c10 c11 c12 c13 c14 by (intro conjI)
qed

lemma convertKeyName_A: "convertKeyName ''A'' = ''a''"
  by code_simp

theorem injector_failure_never_aborts_witness:
  "executeAction (Some (\<lambda>k c. k \<noteq> 0)) 0 tapA =
     Inr [ConsoleError (InjectorFailure (KeyTap ''a''))] \<and>
   (\<exists>tr1 tr2.
      playbackLoop 3 (Some (\<lambda>k c. k \<noteq> 0)) combo (\<lambda>k. False) = Some (Inr tr1) \<and>
      playbackLoop 3 (Some (\<lambda>k c. True)) combo (\<lambda>k. False) = Some (Inr tr2) \<and>
      map fst tr1 = [tapA, wait100, tapB, tapA, wait100, tapB] \<and>
      length tr1 = length tr2 \<and> tr1 ! 2 = tr2 ! 2 \<and> tr1 ! 3 = tr2 ! 3)"
proof -
  let ?r = "\<lambda>(k::nat) (c::injector_call). k \<noteq> 0"
  let ?g = "\<lambda>(k::nat) (c::injector_call). True"
  let ?s = "\<lambda>k::nat. False"
  note bad = injector_failure_never_aborts
    [where r = ?r and r' = ?g and k = 0 and action = tapA and fuel = 3 and m = combo
      and stopped = ?s and robot = "Some ?r"]
  note good = injector_failure_never_aborts
    [where fuel = 3 and m = combo and stopped = ?s and robot = "Some ?g"]
  have rc: "repeatCount combo = 2" and as: "actions combo = [tapA, wait100, tapB]"
    by (simp_all add: combo_def)
  have kk: "actionType tapA = KEYBOARD_KEY" "inputName tapA = ''A''"
    by (simp_all add: tapA_def)
  have two: "nat 2 = Suc (Suc 0)" by simp
  have pre: "1 \<le> repeatCount combo \<and> (\<forall>j. \<not> ?s j) \<and> nat (repeatCount combo) < 3"
    by (simp add: rc)
  note bad4 = bad [THEN conjunct2, THEN conjunct2, THEN conjunct2, THEN conjunct1]
  note bad13 = bad [THEN conjunct2, THEN conjunct2, THEN conjunct2, THEN conjunct2, THEN conjunct2, THEN conjunct2, THEN conjunct2, THEN conjunct2, THEN conjunct2, THEN conjunct2, THEN conjunct2, THEN conjunct2, THEN conjunct1]
  note bad14 = bad [THEN conjunct2, THEN conjunct2, THEN conjunct2, THEN conjunct2, THEN conjunct2, THEN conjunct2, THEN conjunct2, THEN conjunct2, THEN conjunct2, THEN conjunct2, THEN conjunct2, THEN conjunct2, THEN conjunct2]
  note good14 = good [THEN conjunct2, THEN conjunct2, THEN conjunct2, THEN conjunct2, THEN conjunct2, THEN conjunct2, THEN conjunct2, THEN conjunct2, THEN conjunct2, THEN conjunct2, THEN conjunct2, THEN conjunct2, THEN conjunct2]
  have 1: "executeAction (Some ?r) 0 tapA = Inr [ConsoleError (InjectorFailure (KeyTap ''a''))]"
    using bad4 kk by (simp add: convertKeyName_A)
  from bad14 pre obtain tr1 where t1: "playbackLoop 3 (Some ?r) combo ?s = Some (Inr tr1)"
    and m1: "map fst tr1 = concat (replicate (nat (repeatCount combo)) (actions combo))"
    by blast
  from good14 pre obtain tr2 where t2: "playbackLoop 3 (Some ?g) combo ?s = Some (Inr tr2)"
    by blast
  have m1': "map fst tr1 = [tapA, wait100, tapB, tapA, wait100, tapB]"
    unfolding m1 rc two as by simp
  have "length (map fst tr1) = 6" unfolding m1' by simp
  then have l1: "length tr1 = 6" by simp
  from bad13 t1 t2 have loc: "length tr1 = length tr2"
    "\<forall>j<length tr1. ?r j = ?g j \<longrightarrow> tr1 ! j = tr2 ! j"
    by blast+
  have n2: "tr1 ! 2 = tr2 ! 2" and n3: "tr1 ! 3 = tr2 ! 3" using loc(2) l1 by simp_all
  have "\<exists>tr1 tr2.
      playbackLoop 3 (Some ?r) combo ?s = Some (Inr tr1) \<and>
      playbackLoop 3 (Some ?g) combo ?s = Some (Inr tr2) \<and>
      map fst tr1 = [tapA, wait100, tapB, tapA, wait100, tapB] \<and>
      length tr1 = length tr2 \<and> tr1 ! 2 = tr2 ! 2 \<and> tr1 ! 3 = tr2 ! 3"
    by (intro exI [of _ tr1] exI [of _ tr2] conjI) (fact t1 t2 m1' loc(1) n2 n3)+
  then show ?thesis using 1 by (rule conjI [rotated])
qed

section \<open>Properties of the action list\<close>

lemma findIndex_absent: "\<forall>x\<in>set xs. \<not> p x \<Longrightarrow> findIndex p xs = -1"
  by (induction xs) simp_all

text \<open>
  Claim C9. \<open>moveAction\<close> with an action id that the macro does not hold returns the
  macro as it was: the same action list and the same \<open>modifiedAt\<close>.
\<close>

theorem moveAction_absent_unchanged:
  assumes "aid \<notin> actionId ` set (actions m)"
  shows "moveAction now m aid newIndex = m"
proof -
  have "findIndex (\<lambda>a. actionId a = aid) (actions m) = -1"
    using assms by (intro findIndex_absent) auto
  then show ?thesis by (simp add: moveAction_def)
qed

theorem moveAction_absent_unchanged_witness:
  "''zz'' \<notin> actionId ` set (actions combo) \<and> moveAction 5 combo ''zz'' 0 = combo"
proof -
  have h: "''zz'' \<notin> actionId ` set (actions combo)"
    by (simp add: combo_def tapA_def wait100_def tapB_def)
  show ?thesis using h moveAction_absent_unchanged [OF h, of 5 0] by simp
qed

section \<open>Properties of double-tap detection\<close>

lemmas TriggerType_defs = KEY_PRESS_def KEY_HOLD_def KEY_DOUBLE_TAP_def KEY_COMBO_def


lemma checkDoubleTap_cong:
  "keyPressTimes e key = keyPressTimes e' key \<Longrightarrow>
   checkDoubleTap e key w = checkDoubleTap e' key w"
  by (simp add: checkDoubleTap_def)

lemma setupHoldTimer_keyPressTimes [simp]:
  "keyPressTimes (setupHoldTimer t key e) = keyPressTimes e"
  by (simp add: setupHoldTimer_def setTimeout_def clearTimeout_def Let_def split: option.splits)

lemma checkKeyTrigger_keyPressTimes:
  "keyPressTimes (fst (checkKeyTrigger p key u (e, acts))) = keyPressTimes e"
  by (simp add: checkKeyTrigger_def Let_def)

lemma checkKeyTrigger_doubleTap:
  assumes "triggerType t = KEY_DOUBLE_TAP"
  shows "t \<in> set (snd (checkKeyTrigger p key u (e, acts))) \<longleftrightarrow>
         t \<in> set acts \<or>
         (u = t \<and> enabledT t \<and> \<not> device_blocked p t \<and> inputNameT t = key \<and>
          checkDoubleTap e key (doubleTapWindow t))"
proof (cases "u = t")
  case True
  have "checkDoubleTap (fst (checkKeyTrigger p key t (e, acts))) key (doubleTapWindow t) =
        checkDoubleTap e key (doubleTapWindow t)"
    by (rule checkDoubleTap_cong) (simp add: checkKeyTrigger_keyPressTimes)
  then show ?thesis using True assms
    by (auto simp: checkKeyTrigger_def Let_def TriggerType_defs
        cong: checkDoubleTap_cong)
next
  case False
  then show ?thesis by (auto simp: checkKeyTrigger_def Let_def)
qed


lemma fold_checkKeyTrigger_doubleTap:
  assumes "triggerType t = KEY_DOUBLE_TAP"
  shows "t \<in> set (snd (fold (checkKeyTrigger p key) us (e, acts))) \<longleftrightarrow>
         t \<in> set acts \<or>
         (t \<in> set us \<and> enabledT t \<and> \<not> device_blocked p t \<and> inputNameT t = key \<and>
          checkDoubleTap e key (doubleTapWindow t))"
proof (induction us arbitrary: e acts)
  case Nil
  show ?case by simp
next
  case (Cons u us)
  obtain e1 acts1 where s: "checkKeyTrigger p key u (e, acts) = (e1, acts1)"
    by (cases "checkKeyTrigger p key u (e, acts)")
  have k: "keyPressTimes e1 = keyPressTimes e"
    using checkKeyTrigger_keyPressTimes [of p key u e acts] s by simp
  have c: "checkDoubleTap e1 key (doubleTapWindow t) = checkDoubleTap e key (doubleTapWindow t)"
    by (rule checkDoubleTap_cong) (simp add: k)
  have a: "t \<in> set acts1 \<longleftrightarrow>
         t \<in> set acts \<or>
         (u = t \<and> enabledT t \<and> \<not> device_blocked p t \<and> inputNameT t = key \<and>
          checkDoubleTap e key (doubleTapWindow t))"
    using checkKeyTrigger_doubleTap [OF assms, of p key u e acts] s by simp
  show ?case using Cons.IH [of e1 acts1] s a c by auto
qed





lemma single_run_needs_two_presses:
  "((case keyPressTimes e key of None \<Rightarrow> True | Some ts \<Rightarrow> length ts < 2) \<longrightarrow>
      \<not> checkDoubleTap e key window) \<and>
   ((case keyPressTimes e key of None \<Rightarrow> True | Some ts \<Rightarrow> ts = []) \<longrightarrow>
      (\<forall>t\<in>set (snd (handleKeyDown process now key e)). triggerType t \<noteq> KEY_DOUBLE_TAP))"
proof -
  have a: "(case keyPressTimes e key of None \<Rightarrow> True | Some ts \<Rightarrow> length ts < 2) \<longrightarrow>
      \<not> checkDoubleTap e key window"
    by (simp add: checkDoubleTap_def split: option.splits)
  have b: "(case keyPressTimes e key of None \<Rightarrow> True | Some ts \<Rightarrow> ts = []) \<longrightarrow>
      (\<forall>t\<in>set (snd (handleKeyDown process now key e)). triggerType t \<noteq> KEY_DOUBLE_TAP)"
  proof (intro impI ballI notI)
    fix t
    assume h: "case keyPressTimes e key of None \<Rightarrow> True | Some ts \<Rightarrow> ts = []"
      and t: "t \<in> set (snd (handleKeyDown process now key e))"
      and d: "triggerType t = KEY_DOUBLE_TAP"
    have mon: "monitoring e" using t by (auto simp: handleKeyDown_def split: if_splits)
    obtain e' acts where r: "handleKeyDown process now key e = (e', acts)"
      by (cases "handleKeyDown process now key e")
    let ?e3 = "cleanupPressTimes key now
       (e\<lparr>pressedKeys := insert key (pressedKeys e),
          keyPressTimes := (keyPressTimes e)
            (key \<mapsto> (case keyPressTimes e key of None \<Rightarrow> [] | Some ts \<Rightarrow> ts) @ [now])\<rparr>)"
    have tr: "triggers ?e3 = triggers e"
      by (simp add: cleanupPressTimes_def split: option.splits)
    have f: "(e', acts) = fold (checkKeyTrigger process key) (map snd (triggers e)) (?e3, [])"
      using mon r tr by (simp add: handleKeyDown_def checkKeyTriggers_def Let_def)
    have "t \<in> set acts" using t r by simp
    then have c: "checkDoubleTap ?e3 key (doubleTapWindow t)"
      using fold_checkKeyTrigger_doubleTap [OF d, of process key "map snd (triggers e)" ?e3 "[]"]
        arg_cong [OF f, of snd] by simp
    have "keyPressTimes ?e3 key = Some [now]"
      using h by (simp add: cleanupPressTimes_def split: option.splits)
    then have "\<not> checkDoubleTap ?e3 key (doubleTapWindow t)"
      by (simp add: checkDoubleTap_def)
    then show False using c by blast
  qed
  show ?thesis using a b by blast
qed

lemmas monitoring_defs =
  startMonitoring_def stopMonitoring_def startKeyboardMonitoring_def stopKeyboardMonitoring_def
  startGamepadMonitoring_def stopGamepadMonitoring_def bind_this_def addEventListener_def
  removeEventListener_def

lemmas keydown_defs =
  keydown_event_def handleKeyDown_def cleanupPressTimes_def checkKeyTriggers_def
  checkKeyTrigger_def checkDoubleTap_def device_blocked_def

lemma started_fields:
  "monitoring started" "keydownListeners started = [0]" "keyPressTimes started = Map.empty"
  "triggers started = [(''t2'', doubleF)]" "pressedKeys started = {}"
  by (simp_all add: started_def idle_def new_TriggerEngine_def monitoring_defs)

lemma restarted_fields:
  "monitoring restarted" "keydownListeners restarted = [0, 4]"
  "keyPressTimes restarted = Map.empty" "triggers restarted = [(''t2'', doubleF)]"
  by (simp_all add: restarted_def idle_def new_TriggerEngine_def monitoring_defs)

lemma doubleF_fields:
  "enabledT doubleF" "deviceIdT doubleF = None" "triggerType doubleF = ''key_double_tap''"
  "inputNameT doubleF = ''F''" "doubleTapWindow doubleF = 300"
  by (simp_all add: doubleF_def new_Trigger_def KEY_DOUBLE_TAP_def)

text \<open>
  Claim C10. One run of \<open>_handleKeyDown\<close> on a key with no recorded timestamp
  activates no double-tap trigger (the lemma above), and on an engine started once a
  first press activates none. An engine that was stopped and started again has no
  recorded timestamp, but the document then holds two key-down listeners: the first
  press runs the handler twice, the second run finds the time of the first, and the
  double-tap trigger is activated by that single press.
\<close>

theorem first_press_after_restart_fires:
  "keydownListeners started = [0] \<and>
   snd (keydown_event (\<lambda>d. True) (\<lambda>i. 1300) ''F'' started) = [] \<and>
   monitoring restarted \<and>
   keyPressTimes restarted ''F'' = None \<and>
   keydownListeners restarted = [0, 4] \<and>
   snd (keydown_event (\<lambda>d. True) (\<lambda>i. 1300) ''F'' restarted) = [doubleF]"
proof -
  have 1: "snd (keydown_event (\<lambda>d. True) (\<lambda>i. 1300) ''F'' started) = []"
    by (simp add: keydown_defs started_fields doubleF_fields KEY_PRESS_def KEY_HOLD_def
        KEY_COMBO_def KEY_DOUBLE_TAP_def Let_def)
  have 2: "snd (keydown_event (\<lambda>d. True) (\<lambda>i. 1300) ''F'' restarted) = [doubleF]"
    by (simp add: keydown_defs restarted_fields doubleF_fields KEY_PRESS_def KEY_HOLD_def
        KEY_COMBO_def KEY_DOUBLE_TAP_def Let_def)
  show ?thesis using 1 2 by (simp add: started_fields restarted_fields)
qed

section \<open>Persistence: what a round trip changes\<close>

lemma MacroAction_roundtrip:
  "actionId a \<noteq> [] \<Longrightarrow> MacroAction_fromJSON u (MacroAction_toJSON a) = a"
  by (simp add: MacroAction_fromJSON_def MacroAction_toJSON_def or_string_def or_default_def)

lemma actions_roundtrip:
  "\<forall>a\<in>set as. actionId a \<noteq> [] \<Longrightarrow>
   map (\<lambda>(i, a). MacroAction_fromJSON (u (Suc i)) a) (enumerate n (map MacroAction_toJSON as)) = as"
  by (induction as arbitrary: n) (simp_all add: MacroAction_roundtrip)

lemma Macro_roundtrip:
  assumes "macroId m \<noteq> []" and "repeatCount m \<noteq> 0" and "\<forall>a\<in>set (actions m). actionId a \<noteq> []"
  shows "Macro_fromJSON u now (Macro_toJSON m) = m"
  using assms actions_roundtrip [of "actions m" u 0]
  by (simp add: Macro_fromJSON_def Macro_toJSON_def or_string_def or_default_def
      or_number_def or_array_def)

lemma Macro_roundtrip_zero:
  "repeatCount m = 0 \<Longrightarrow> repeatCount (Macro_fromJSON u now (Macro_toJSON m)) = 1"
  by (simp add: Macro_fromJSON_def Macro_toJSON_def or_number_def)

lemma Trigger_roundtrip:
  assumes "triggerId t \<noteq> []" and "axisThreshold t \<noteq> 0" and "holdDuration t \<noteq> 0"
    and "doubleTapWindow t \<noteq> 0"
  shows "Trigger_fromJSON u (Trigger_toJSON t) = t"
  using assms
  by (simp add: Trigger_fromJSON_def Trigger_toJSON_def new_Trigger_def or_string_def
      or_default_def or_number_def or_array_def)

text \<open>
  Claim C1. The catalogue holding the macro with repeat count \<open>0\<close> (no repeat limit)
  comes back from \<open>toJSON\<close> then \<open>fromJSON\<close> with repeat count \<open>1\<close>, although
  the record holds the field; a trigger with hold duration \<open>0\<close> comes back with
  \<open>500\<close>.
\<close>

theorem roundtrip_resets_zero_fields:
  "repeatCount endless = 0 \<and>
   MacroEngine_fromJSON (\<lambda>j i. ''fresh'') 7 (MacroEngine_toJSON [(''m1'', endless)]) =
     [(''m1'', endless\<lparr>repeatCount := 1\<rparr>)] \<and>
   TriggerEngine_fromJSON (\<lambda>j. ''fresh'')
       (TriggerEngine_toJSON [(''t1'', holdF\<lparr>holdDuration := 0\<rparr>)]) =
     [(''t1'', holdF\<lparr>holdDuration := 500\<rparr>)]"
  by code_simp

section \<open>Sessions and hold timers\<close>

text \<open>
  Claim C4. The macro is played, and played again while its first session waits in an
  action. When the first session has observed its stop flag and run its cleanup, the
  second session is still running, yet the engine no longer lists the macro as playing
  and holds no stop flag for it: \<open>stopMacro\<close> does not stop the session, and one more
  \<open>playMacro\<close> gives two sessions of the macro running at once.
\<close>

theorem restart_loses_new_session:
  "map_option (\<lambda>e. (isMacroPlaying e ''m1'', stopFlags e ''m1'', length (running e ''m1''),
                     length (running (stopMacro ''m1'' e) ''m1'')))
     restart_run = Some (False, None, 1, 1) \<and>
   map_option (\<lambda>e. length (running e ''m1'')) (Option.bind restart_run (playMacro ''m1'')) =
     Some 2"
  by code_simp

lemma failing_injector_is_logged:
  "executeAction (Some (\<lambda>k c. False)) 0 tapA = Inr [ConsoleError (InjectorFailure (KeyTap ''a''))]"
  by code_simp

lemma deleteTrigger_keeps_timers:
  "timeouts (deleteTrigger tid e) = timeouts e \<and>
   keyHoldTimers (deleteTrigger tid e) = keyHoldTimers e"
  by (simp add: deleteTrigger_def)

text \<open>
  Claim C5. A hold trigger is armed by a key-down and then deleted. The timeout stays
  armed and the engine still holds its handle; when it fires with the key still down, the
  deleted trigger is activated. Releasing the key instead does cancel the timeout.
\<close>

theorem deleted_hold_trigger_fires:
  "(case handleKeyDown (\<lambda>d. True) 0 ''F'' triggers0 of
      (e1, acts1) \<Rightarrow>
        (let e2 = deleteTrigger ''t1'' e1 in
         getTrigger e1 ''t1'' = Some holdF \<and>
         getTrigger e2 ''t1'' = None \<and>
         keyHoldTimers e2 ''F'' = Some 0 \<and>
         snd (timeout_fires 0 e2) = [holdF] \<and>
         snd (timeout_fires 0 (handleKeyUp ''F'' e1)) = []))"
  by code_simp

end
